theory Spec2Isabelle
  imports Main "HOL-Library.Word" "HOL-Library.Monad_Syntax"
begin

unbundle bit_operations_syntax

section \<open>The record decoder of perffile (records.go)\<close>

text \<open>
  The development embeds \<^verbatim>\<open>src/perffile/records.go\<close>: the iterator \<^verbatim>\<open>Records\<close>, its
  method \<^verbatim>\<open>Next\<close>, the per-kind decoders, \<^verbatim>\<open>parseSample\<close>, \<^verbatim>\<open>parseReadFormat\<close>,
  \<^verbatim>\<open>decodeDataSrc\<close> and \<^verbatim>\<open>weight\<close>.

  Conventions of the embedding.
  \<^item> Go's \<^verbatim>\<open>uintN\<close> is \<open>N word\<close>; Go's \<^verbatim>\<open>int\<close> is taken to be 64 bits wide and is an
    \<open>int\<close> obtained with \<open>sint\<close> or \<open>uint\<close>, as the conversion in the source says.
  \<^item> A run-time panic (slice bounds, index out of range, negative length) is the value
    \<open>None\<close> of the option monad: the call does not return.
  \<^item> The iterator's error field \<^verbatim>\<open>r.err\<close> is state: an \<open>error option\<close>, \<open>None\<close> for nil.
  \<^item> Mutation through a pointer is explicit state passing: a decoder takes the iterator
    and the cursor and returns both updated.
\<close>

type_synonym byte = "8 word"
type_synonym attrID = "64 word"

subsection \<open>Constants whose declarations are outside the source files\<close>

text \<open>
  The bit constants of the sample format, of the read format and of the header's misc
  word, and the sentinels of the data-source fields, are declared in a file that is not
  part of the source at hand. They are parameters of the model: every theorem holds for
  all values of them.
\<close>

record SampleFormatConsts =
  SampleFormatIP :: "64 word"
  SampleFormatTID :: "64 word"
  SampleFormatTime :: "64 word"
  SampleFormatAddr :: "64 word"
  SampleFormatRead :: "64 word"
  SampleFormatCallchain :: "64 word"
  SampleFormatID :: "64 word"
  SampleFormatCPU :: "64 word"
  SampleFormatPeriod :: "64 word"
  SampleFormatStreamID :: "64 word"
  SampleFormatRaw :: "64 word"
  SampleFormatBranchStack :: "64 word"
  SampleFormatRegsUser :: "64 word"
  SampleFormatStackUser :: "64 word"
  SampleFormatWeight :: "64 word"
  SampleFormatDataSrc :: "64 word"
  SampleFormatIdentifier :: "64 word"
  SampleFormatTransaction :: "64 word"

record ReadFormatConsts =
  ReadFormatTotalTimeEnabled :: "64 word"
  ReadFormatTotalTimeRunning :: "64 word"
  ReadFormatID :: "64 word"
  ReadFormatGroup :: "64 word"

record MiscConsts =
  recordMiscMmapData :: "16 word"
  recordMiscCommExec :: "16 word"
  recordMiscCPUModeMask :: "16 word"
  recordMiscExactIP :: "16 word"

record DataSrcConsts =
  DataSrcOpNA :: "64 word"
  DataSrcLevelNA :: "64 word"
  DataSrcSnoopNA :: "64 word"
  DataSrcLockNA :: "64 word"
  DataSrcLockLocked :: "64 word"
  DataSrcLockUnlocked :: "64 word"
  DataSrcTLBNA :: "64 word"

record Consts =
  sfc :: SampleFormatConsts
  rfc :: ReadFormatConsts
  mc :: MiscConsts
  dsc :: DataSrcConsts

text \<open>
  A concrete choice of the constants, for the examples: the bit values of the Linux
  perf_event ABI for the three masks, zero for the not-applicable sentinels.
\<close>

definition abi :: Consts where
  "abi = \<lparr>
     sfc = \<lparr> SampleFormatIP = 0x1, SampleFormatTID = 0x2, SampleFormatTime = 0x4,
       SampleFormatAddr = 0x8, SampleFormatRead = 0x10, SampleFormatCallchain = 0x20,
       SampleFormatID = 0x40, SampleFormatCPU = 0x80, SampleFormatPeriod = 0x100,
       SampleFormatStreamID = 0x200, SampleFormatRaw = 0x400,
       SampleFormatBranchStack = 0x800, SampleFormatRegsUser = 0x1000,
       SampleFormatStackUser = 0x2000, SampleFormatWeight = 0x4000,
       SampleFormatDataSrc = 0x8000, SampleFormatIdentifier = 0x10000,
       SampleFormatTransaction = 0x20000 \<rparr>,
     rfc = \<lparr> ReadFormatTotalTimeEnabled = 0x1, ReadFormatTotalTimeRunning = 0x2,
       ReadFormatID = 0x4, ReadFormatGroup = 0x8 \<rparr>,
     mc = \<lparr> recordMiscMmapData = 0x2000, recordMiscCommExec = 0x2000,
       recordMiscCPUModeMask = 0x7, recordMiscExactIP = 0x4000 \<rparr>,
     dsc = \<lparr> DataSrcOpNA = 0, DataSrcLevelNA = 0, DataSrcSnoopNA = 0, DataSrcLockNA = 0,
       DataSrcLockLocked = 1, DataSrcLockUnlocked = 2, DataSrcTLBNA = 0 \<rparr> \<rparr>"

text \<open>
  The record kinds. Their values are fixed by \<^verbatim>\<open>recordtype_string.go\<close>: the generated
  name table starts at 1 and lists Mmap, Lost, Comm, Exit, Throttle, Unthrottle, Fork,
  Read, Sample, Mmap2 in this order.
\<close>

definition RecordTypeMmap :: "32 word" where "RecordTypeMmap = 1"
definition RecordTypeLost :: "32 word" where "RecordTypeLost = 2"
definition RecordTypeComm :: "32 word" where "RecordTypeComm = 3"
definition RecordTypeExit :: "32 word" where "RecordTypeExit = 4"
definition RecordTypeThrottle :: "32 word" where "RecordTypeThrottle = 5"
definition RecordTypeUnthrottle :: "32 word" where "RecordTypeUnthrottle = 6"
definition RecordTypeFork :: "32 word" where "RecordTypeFork = 7"
definition RecordTypeRead :: "32 word" where "RecordTypeRead = 8"
definition RecordTypeSample :: "32 word" where "RecordTypeSample = 9"
definition recordTypeMmap2 :: "32 word" where "recordTypeMmap2 = 10"

subsection \<open>Little-endian words\<close>

text \<open>
  \<^verbatim>\<open>binary.LittleEndian.Uint64(b)\<close> and its 32-bit sibling, of Go's standard library:
  the first byte is the least significant one. \<open>le_word\<close> reads the whole list;
  \<open>le_bytes n w\<close> is the inverse layout, the \<open>n\<close> low bytes of \<open>w\<close>, used to state what
  a payload looks like.
\<close>

fun le_word :: "byte list \<Rightarrow> 'a::len word" where
  "le_word [] = 0"
| "le_word (b # bs) = ucast b OR push_bit 8 (le_word bs)"

fun le_bytes :: "nat \<Rightarrow> 'a::len word \<Rightarrow> byte list" where
  "le_bytes 0 w = []"
| "le_bytes (Suc n) w = ucast w # le_bytes n (drop_bit 8 w)"

definition Uint64 :: "byte list \<Rightarrow> 64 word option" where
  "Uint64 b = (if length b < 8 then None else Some (le_word (take 8 b)))"

definition Uint32 :: "byte list \<Rightarrow> 32 word option" where
  "Uint32 b = (if length b < 4 then None else Some (le_word (take 4 b)))"

subsection \<open>The byte cursor\<close>

text \<open>
  Modelled from the spec: the type \<^verbatim>\<open>bufDecoder\<close> and its methods (\<^verbatim>\<open>u32\<close>, \<^verbatim>\<open>i32\<close>,
  \<^verbatim>\<open>u64\<close>, their conditional variants, \<^verbatim>\<open>u64s\<close>, \<^verbatim>\<open>bytes\<close>, \<^verbatim>\<open>skip\<close>, \<^verbatim>\<open>cstring\<close>) are
  not in the source files. Section 4.1 of the specification fixes them: a forward-only
  cursor over a byte span, little-endian; each read consumes its fixed width and
  returns the value; a conditional read with a false condition returns zero and does
  not advance; a string read consumes up to and including the terminating zero byte
  and returns the bytes before it; a raw-range read takes exactly N bytes; reading past
  the end is a hard failure (a panic, here \<open>None\<close>). The cursor is the list of the bytes
  not yet consumed.
\<close>

definition u64 :: "byte list \<Rightarrow> (64 word \<times> byte list) option" where
  "u64 bd = do { x \<leftarrow> Uint64 bd; Some (x, drop 8 bd) }"

definition u32 :: "byte list \<Rightarrow> (32 word \<times> byte list) option" where
  "u32 bd = do { x \<leftarrow> Uint32 bd; Some (x, drop 4 bd) }"

definition i32 :: "byte list \<Rightarrow> (32 word \<times> byte list) option" where
  "i32 bd = do { x \<leftarrow> Uint32 bd; Some (x, drop 4 bd) }"

definition u64If :: "bool \<Rightarrow> byte list \<Rightarrow> (64 word \<times> byte list) option" where
  "u64If c bd = (if c then u64 bd else Some (0, bd))"

definition u32If :: "bool \<Rightarrow> byte list \<Rightarrow> (32 word \<times> byte list) option" where
  "u32If c bd = (if c then u32 bd else Some (0, bd))"

definition i32If :: "bool \<Rightarrow> byte list \<Rightarrow> (32 word \<times> byte list) option" where
  "i32If c bd = (if c then i32 bd else Some (0, bd))"

definition skip :: "int \<Rightarrow> byte list \<Rightarrow> byte list option" where
  "skip n bd = (if n < 0 \<or> int (length bd) < n then None else Some (drop (nat n) bd))"

definition cstring :: "byte list \<Rightarrow> (byte list \<times> byte list) option" where
  "cstring bd = (if 0 \<in> set bd
     then Some (takeWhile (\<lambda>c. c \<noteq> 0) bd, drop 1 (dropWhile (\<lambda>c. c \<noteq> 0) bd))
     else None)"

fun read_u64s :: "nat \<Rightarrow> byte list \<Rightarrow> (64 word list \<times> byte list) option" where
  "read_u64s 0 bd = Some ([], bd)"
| "read_u64s (Suc n) bd =
     do { (v, bd) \<leftarrow> u64 bd; (vs, bd) \<leftarrow> read_u64s n bd; Some (v # vs, bd) }"

subsection \<open>Slices\<close>

text \<open>
  A Go slice is nil, or a window of \<open>slen\<close> elements at the start of a backing array;
  the capacity is the length of the backing array. \<open>elems\<close> is what a reader of the
  slice sees. The decoders keep their slices between records and resize them with
  the idiom
  \<^verbatim>\<open>if s == nil || cap(s) < n { s = make([]T, n) } else { s = s[:n] }\<close>,
  which is \<open>resize\<close>: \<^verbatim>\<open>make\<close> (here \<open>make_slice\<close>) with a negative length panics,
  and so does \<^verbatim>\<open>s[:n]\<close>.
\<close>

datatype 'a slice = Nil_slice | Slice "'a list" nat

fun cap :: "'a slice \<Rightarrow> nat" where
  "cap Nil_slice = 0"
| "cap (Slice a n) = length a"

fun elems :: "'a slice \<Rightarrow> 'a list" where
  "elems Nil_slice = []"
| "elems (Slice a n) = take n a"

definition len :: "'a slice \<Rightarrow> nat" where
  "len s = length (elems s)"

definition make_slice :: "'a \<Rightarrow> int \<Rightarrow> 'a slice option" where
  "make_slice z n = (if n < 0 then None else Some (Slice (replicate (nat n) z) (nat n)))"

fun reslice :: "'a slice \<Rightarrow> int \<Rightarrow> 'a slice option" where
  "reslice Nil_slice n = (if n = 0 then Some Nil_slice else None)"
| "reslice (Slice a m) n =
     (if n < 0 \<or> int (length a) < n then None else Some (Slice a (nat n)))"

definition resize :: "'a \<Rightarrow> 'a slice \<Rightarrow> int \<Rightarrow> 'a slice option" where
  "resize z s n = (if s = Nil_slice \<or> int (cap s) < n then make_slice z n else reslice s n)"

text \<open>Assignment \<^verbatim>\<open>s[i] = v\<close>; an index outside the slice panics.\<close>

fun store :: "'a slice \<Rightarrow> nat \<Rightarrow> 'a \<Rightarrow> 'a slice option" where
  "store Nil_slice i v = None"
| "store (Slice a n) i v = (if i < n \<and> i < length a then Some (Slice (a[i := v]) n) else None)"

text \<open>\<^verbatim>\<open>for i := range s { body }\<close>: the body runs for the indices \<open>0 .. len s - 1\<close> in order.\<close>

fun for_range :: "nat list \<Rightarrow> (nat \<Rightarrow> 's \<Rightarrow> 's option) \<Rightarrow> 's \<Rightarrow> 's option" where
  "for_range [] body s = Some s"
| "for_range (i # is) body s = do { s' \<leftarrow> body i s; for_range is body s' }"

text \<open>
  Modelled from the spec: \<^verbatim>\<open>bufDecoder.u64s(x)\<close> fills the slice \<open>x\<close> with \<open>len x\<close>
  64-bit values read in order (section 4.5, step 5: "read a count, then that many
  64-bit addresses"), and \<^verbatim>\<open>bufDecoder.bytes(x)\<close> fills \<open>x\<close> with \<open>len x\<close> raw bytes.
\<close>

fun overwrite :: "'a slice \<Rightarrow> 'a list \<Rightarrow> 'a slice" where
  "overwrite Nil_slice vs = Nil_slice"
| "overwrite (Slice a n) vs = Slice (vs @ drop (length vs) a) n"

definition u64s :: "64 word slice \<Rightarrow> byte list \<Rightarrow> (64 word slice \<times> byte list) option" where
  "u64s x bd = do { (vs, bd') \<leftarrow> read_u64s (len x) bd; Some (overwrite x vs, bd') }"

definition bytes :: "byte slice \<Rightarrow> byte list \<Rightarrow> (byte slice \<times> byte list) option" where
  "bytes x bd = (if length bd < len x then None
     else Some (overwrite x (take (len x) bd), drop (len x) bd))"

subsection \<open>weight and decodeDataSrc\<close>

text \<open>\<^verbatim>\<open>func weight(x uint64) int\<close>, lines 375-380: all arithmetic wraps at 64 bits.\<close>

definition weight :: "64 word \<Rightarrow> int" where
  "weight x0 =
    (let x1 = x0 - (drop_bit 1 x0 AND 0x5555555555555555);
         x2 = (x1 AND 0x3333333333333333) + (drop_bit 2 x1 AND 0x3333333333333333);
         x3 = (x2 + drop_bit 4 x2) AND 0x0f0f0f0f0f0f0f0f
     in sint (drop_bit 56 (x3 * 0x0101010101010101)))"

text \<open>
  The decoded data source. The named types of its fields (\<^verbatim>\<open>DataSrcOp\<close>, \<^verbatim>\<open>DataSrcLevel\<close>,
  ...) are declared outside the source files; the conversions of the source are applied
  to values below \<open>2 ^ 11\<close>, and the fields are kept as 64-bit values.
\<close>

record DataSrc =
  Op :: "64 word"
  Miss :: bool
  Level :: "64 word"
  Snoop :: "64 word"
  Locked :: "64 word"
  TLB :: "64 word"

definition decodeDataSrc :: "DataSrcConsts \<Rightarrow> 64 word \<Rightarrow> DataSrc" where
  "decodeDataSrc D d =
    (let op = drop_bit 0 d AND 0x1f;
         lvl = drop_bit 5 d AND 0x3fff;
         snoop = drop_bit 19 d AND 0x1f;
         lock = drop_bit 24 d AND 0x3;
         dtlb = drop_bit 26 d AND 0x7f
     in \<lparr> Op = (if op AND 0x1 \<noteq> 0 then DataSrcOpNA D else drop_bit 1 op),
          Miss = (if lvl AND 0x1 \<noteq> 0 then False else lvl AND 0x4 \<noteq> 0),
          Level = (if lvl AND 0x1 \<noteq> 0 then DataSrcLevelNA D else drop_bit 3 lvl),
          Snoop = (if snoop AND 0x1 \<noteq> 0 then DataSrcSnoopNA D else drop_bit 1 snoop),
          Locked = (if lock AND 0x1 \<noteq> 0 then DataSrcLockNA D
                    else if lock AND 0x02 \<noteq> 0 then DataSrcLockLocked D
                    else DataSrcLockUnlocked D),
          TLB = (if dtlb AND 0x1 \<noteq> 0 then DataSrcTLBNA D else drop_bit 1 dtlb) \<rparr>)"

subsection \<open>Records of the stream\<close>

text \<open>
  The struct types of the decoded records are declared outside the source files; their
  fields are the ones the decoders assign. Field names that occur in several structs
  carry a prefix here (\<open>mmap_\<close>, \<open>comm_\<close>, \<open>exit_\<close>, \<open>fork_\<close>, \<open>lost_\<close>,
  \<open>thr_\<close>, \<open>rd_\<close>); the fields of \<^verbatim>\<open>RecordSample\<close> keep their names. A pointer to
  an \<^verbatim>\<open>EventAttr\<close> is an \<open>EventAttr option\<close>, \<open>None\<close> for nil. Of an \<^verbatim>\<open>EventAttr\<close> only
  the three fields the decoder reads are kept.
\<close>

datatype error = EOF | ErrUnexpectedEOF | UnknownAttrID attrID

record EventAttr =
  SampleFormat :: "64 word"
  ReadFormat :: "64 word"
  SampleRegsUser :: "64 word"

record File =
  idOffset :: int
  idToAttr :: "attrID \<rightharpoonup> EventAttr"

record recordHeader =
  Type :: "32 word"
  Misc :: "16 word"
  Size :: "16 word"

record RecordMmap =
  mmap_Data :: bool
  mmap_PID :: int
  mmap_TID :: int
  mmap_Addr :: "64 word"
  mmap_Len :: "64 word"
  mmap_PgOff :: "64 word"
  mmap_Major :: "32 word"
  mmap_Minor :: "32 word"
  mmap_Ino :: "64 word"
  mmap_InoGeneration :: "64 word"
  mmap_Prot :: "32 word"
  mmap_Flags :: "32 word"
  mmap_Filename :: "byte list"

record RecordLost =
  lost_EventAttr :: "EventAttr option"
  lost_NumLost :: "64 word"

record RecordComm =
  comm_Exec :: bool
  comm_PID :: int
  comm_TID :: int
  comm_Comm :: "byte list"

record RecordExit =
  exit_PID :: int
  exit_PPID :: int
  exit_TID :: int
  exit_PTID :: int
  exit_Time :: "64 word"

record RecordFork =
  fork_PID :: int
  fork_PPID :: int
  fork_TID :: int
  fork_PTID :: int
  fork_Time :: "64 word"

record RecordThrottle =
  thr_Enable :: bool
  thr_Time :: "64 word"
  thr_EventAttr :: "EventAttr option"
  thr_StreamID :: "64 word"

record BranchRecord =
  From :: "64 word"
  To :: "64 word"
  Flags :: "64 word"

record SampleRead =
  rd_Value :: "64 word"
  rd_TimeEnabled :: "64 word"
  rd_TimeRunning :: "64 word"
  rd_EventAttr :: "EventAttr option"

record RecordSample =
  EventAttr :: "EventAttr option"
  CPUMode :: "16 word"
  ExactIP :: bool
  IP :: "64 word"
  PID :: int
  TID :: int
  Time :: "64 word"
  Addr :: "64 word"
  StreamID :: "64 word"
  CPU :: "32 word"
  Res :: "32 word"
  Period :: "64 word"
  SampleRead :: "SampleRead slice"
  Callchain :: "64 word slice"
  BranchStack :: "BranchRecord slice"
  RegsABI :: "64 word"
  Regs :: "64 word slice"
  StackUser :: "byte slice"
  StackUserDynSize :: "64 word"
  Weight :: "64 word"
  DataSrc :: DataSrc
  Transaction :: "64 word"
  AbortCode :: "32 word"

datatype Record_t =
    RecordUnknown recordHeader
  | RMmap RecordMmap
  | RLost RecordLost
  | RComm RecordComm
  | RExit RecordExit
  | RThrottle RecordThrottle
  | RFork RecordFork
  | RSample RecordSample

text \<open>
  The iterator, lines 23-41. \<open>rs_sr\<close> is the part of the record stream not yet read;
  \<open>rs_Record\<close> is the current record, \<open>None\<close> for a nil interface value. The record
  stored there is a copy of the cached record at the moment \<^verbatim>\<open>Next\<close> returns.
\<close>

record Records =
  rs_f :: File
  rs_sr :: "byte list"
  rs_err :: "error option"
  rs_Record :: "Record_t option"
  rs_buf :: "byte list"
  recordMmap :: RecordMmap
  recordComm :: RecordComm
  recordExit :: RecordExit
  recordFork :: RecordFork
  recordSample :: RecordSample

text \<open>Go's zero values.\<close>

definition zero_DataSrc :: DataSrc where
  "zero_DataSrc = \<lparr> Op = 0, Miss = False, Level = 0, Snoop = 0, Locked = 0, TLB = 0 \<rparr>"

definition zero_BranchRecord :: BranchRecord where
  "zero_BranchRecord = \<lparr> From = 0, To = 0, Flags = 0 \<rparr>"

definition zero_SampleRead :: SampleRead where
  "zero_SampleRead = \<lparr> rd_Value = 0, rd_TimeEnabled = 0, rd_TimeRunning = 0, rd_EventAttr = None \<rparr>"

definition zero_RecordMmap :: RecordMmap where
  "zero_RecordMmap = \<lparr> mmap_Data = False, mmap_PID = 0, mmap_TID = 0, mmap_Addr = 0,
     mmap_Len = 0, mmap_PgOff = 0, mmap_Major = 0, mmap_Minor = 0, mmap_Ino = 0,
     mmap_InoGeneration = 0, mmap_Prot = 0, mmap_Flags = 0, mmap_Filename = [] \<rparr>"

definition zero_RecordComm :: RecordComm where
  "zero_RecordComm = \<lparr> comm_Exec = False, comm_PID = 0, comm_TID = 0, comm_Comm = [] \<rparr>"

definition zero_RecordExit :: RecordExit where
  "zero_RecordExit = \<lparr> exit_PID = 0, exit_PPID = 0, exit_TID = 0, exit_PTID = 0, exit_Time = 0 \<rparr>"

definition zero_RecordFork :: RecordFork where
  "zero_RecordFork = \<lparr> fork_PID = 0, fork_PPID = 0, fork_TID = 0, fork_PTID = 0, fork_Time = 0 \<rparr>"

definition zero_RecordSample :: RecordSample where
  "zero_RecordSample = \<lparr> EventAttr = None, CPUMode = 0, ExactIP = False, IP = 0, PID = 0,
     TID = 0, Time = 0, Addr = 0, StreamID = 0, CPU = 0, Res = 0, Period = 0,
     SampleRead = Nil_slice, Callchain = Nil_slice, BranchStack = Nil_slice, RegsABI = 0,
     Regs = Nil_slice, StackUser = Nil_slice, StackUserDynSize = 0, Weight = 0,
     DataSrc = zero_DataSrc, Transaction = 0, AbortCode = 0 \<rparr>"

text \<open>
  Modelled from the spec: the constructor of the iterator (\<^verbatim>\<open>File.Records\<close>) is not in
  the source files. Section 1 of the specification has the caller position a byte
  source at the start of the record stream and supply the attribute table; nothing is
  decoded yet, the error is nil, and every other field has Go's zero value.
\<close>

definition new_Records :: "File \<Rightarrow> byte list \<Rightarrow> Records" where
  "new_Records f s = \<lparr> rs_f = f, rs_sr = s, rs_err = None, rs_Record = None, rs_buf = [],
     recordMmap = zero_RecordMmap, recordComm = zero_RecordComm, recordExit = zero_RecordExit,
     recordFork = zero_RecordFork, recordSample = zero_RecordSample \<rparr>"

subsection \<open>Err and getAttr\<close>

text \<open>\<^verbatim>\<open>func (r *Records) Err() error\<close>, lines 44-46.\<close>

definition Err :: "Records \<Rightarrow> error option" where
  "Err r = rs_err r"

text \<open>
  \<^verbatim>\<open>func (r *Records) getAttr(id attrID) *EventAttr\<close>, lines 122-128: a failed lookup
  stores the error in the iterator and returns nil.
\<close>

definition getAttr :: "Records \<Rightarrow> attrID \<Rightarrow> EventAttr option \<times> Records" where
  "getAttr r aid = (case idToAttr (rs_f r) aid of
      Some attr \<Rightarrow> (Some attr, r)
    | None \<Rightarrow> (None, r\<lparr>rs_err := Some (UnknownAttrID aid)\<rparr>))"

subsection \<open>The per-kind decoders\<close>

text \<open>
  A decoder takes the iterator, the cursor \<^verbatim>\<open>bd\<close> and the header, and returns the record
  (\<open>None\<close> for a nil record), the iterator and the cursor, or \<open>None\<close> when it panics.

  \<^verbatim>\<open>parseMmap\<close>, lines 130-147.
\<close>

definition parseMmap ::
  "Consts \<Rightarrow> Records \<Rightarrow> byte list \<Rightarrow> recordHeader \<Rightarrow> bool
     \<Rightarrow> (Record_t option \<times> Records \<times> byte list) option" where
  "parseMmap K r bd hdr v2 = do {
     let obj = recordMmap r;
     let obj = obj\<lparr>mmap_Data := (Misc hdr AND recordMiscMmapData (mc K) \<noteq> 0)\<rparr>;
     (pid, bd) \<leftarrow> i32 bd;
     (tid, bd) \<leftarrow> i32 bd;
     let obj = obj\<lparr>mmap_PID := sint pid, mmap_TID := sint tid\<rparr>;
     (addr, bd) \<leftarrow> u64 bd;
     (ln, bd) \<leftarrow> u64 bd;
     (pgoff, bd) \<leftarrow> u64 bd;
     let obj = obj\<lparr>mmap_Addr := addr, mmap_Len := ln, mmap_PgOff := pgoff\<rparr>;
     (obj, bd) \<leftarrow> (if v2 then do {
         (major, bd) \<leftarrow> u32 bd;
         (minor, bd) \<leftarrow> u32 bd;
         (ino, bd) \<leftarrow> u64 bd;
         (gen, bd) \<leftarrow> u64 bd;
         (prot, bd) \<leftarrow> u32 bd;
         (flags, bd) \<leftarrow> u32 bd;
         Some (obj\<lparr>mmap_Major := major, mmap_Minor := minor, mmap_Ino := ino,
                 mmap_InoGeneration := gen, mmap_Prot := prot, mmap_Flags := flags\<rparr>, bd)
       } else Some (obj, bd));
     (fname, bd) \<leftarrow> cstring bd;
     let obj = obj\<lparr>mmap_Filename := fname\<rparr>;
     Some (Some (RMmap obj), r\<lparr>recordMmap := obj\<rparr>, bd)
   }"

text \<open>\<^verbatim>\<open>parseLost\<close>, lines 149-151. The operands are evaluated from left to right.\<close>

definition parseLost ::
  "Records \<Rightarrow> byte list \<Rightarrow> recordHeader \<Rightarrow> (Record_t option \<times> Records \<times> byte list) option" where
  "parseLost r bd hdr = do {
     (aid, bd) \<leftarrow> u64 bd;
     let (attr, r) = getAttr r aid;
     (n, bd) \<leftarrow> u64 bd;
     Some (Some (RLost \<lparr>lost_EventAttr = attr, lost_NumLost = n\<rparr>), r, bd)
   }"

text \<open>\<^verbatim>\<open>parseComm\<close>, lines 153-164.\<close>

definition parseComm ::
  "Consts \<Rightarrow> Records \<Rightarrow> byte list \<Rightarrow> recordHeader
     \<Rightarrow> (Record_t option \<times> Records \<times> byte list) option" where
  "parseComm K r bd hdr = do {
     let obj = recordComm r;
     let obj = obj\<lparr>comm_Exec := (Misc hdr AND recordMiscCommExec (mc K) \<noteq> 0)\<rparr>;
     (pid, bd) \<leftarrow> i32 bd;
     (tid, bd) \<leftarrow> i32 bd;
     let obj = obj\<lparr>comm_PID := sint pid, comm_TID := sint tid\<rparr>;
     (comm, bd) \<leftarrow> cstring bd;
     let obj = obj\<lparr>comm_Comm := comm\<rparr>;
     Some (Some (RComm obj), r\<lparr>recordComm := obj\<rparr>, bd)
   }"

text \<open>\<^verbatim>\<open>parseExit\<close>, lines 166-174.\<close>

definition parseExit ::
  "Records \<Rightarrow> byte list \<Rightarrow> recordHeader \<Rightarrow> (Record_t option \<times> Records \<times> byte list) option" where
  "parseExit r bd hdr = do {
     let obj = recordExit r;
     (pid, bd) \<leftarrow> i32 bd;
     (ppid, bd) \<leftarrow> i32 bd;
     let obj = obj\<lparr>exit_PID := sint pid, exit_PPID := sint ppid\<rparr>;
     (tid, bd) \<leftarrow> i32 bd;
     (ptid, bd) \<leftarrow> i32 bd;
     let obj = obj\<lparr>exit_TID := sint tid, exit_PTID := sint ptid\<rparr>;
     (time, bd) \<leftarrow> u64 bd;
     let obj = obj\<lparr>exit_Time := time\<rparr>;
     Some (Some (RExit obj), r\<lparr>recordExit := obj\<rparr>, bd)
   }"

text \<open>\<^verbatim>\<open>parseThrottle\<close>, lines 176-178.\<close>

definition parseThrottle ::
  "Records \<Rightarrow> byte list \<Rightarrow> recordHeader \<Rightarrow> bool
     \<Rightarrow> (Record_t option \<times> Records \<times> byte list) option" where
  "parseThrottle r bd hdr enable = do {
     (time, bd) \<leftarrow> u64 bd;
     (aid, bd) \<leftarrow> u64 bd;
     let (attr, r) = getAttr r aid;
     (sid, bd) \<leftarrow> u64 bd;
     Some (Some (RThrottle \<lparr>thr_Enable = enable, thr_Time = time, thr_EventAttr = attr,
                             thr_StreamID = sid\<rparr>), r, bd)
   }"

text \<open>\<^verbatim>\<open>parseFork\<close>, lines 180-188.\<close>

definition parseFork ::
  "Records \<Rightarrow> byte list \<Rightarrow> recordHeader \<Rightarrow> (Record_t option \<times> Records \<times> byte list) option" where
  "parseFork r bd hdr = do {
     let obj = recordFork r;
     (pid, bd) \<leftarrow> i32 bd;
     (ppid, bd) \<leftarrow> i32 bd;
     let obj = obj\<lparr>fork_PID := sint pid, fork_PPID := sint ppid\<rparr>;
     (tid, bd) \<leftarrow> i32 bd;
     (ptid, bd) \<leftarrow> i32 bd;
     let obj = obj\<lparr>fork_TID := sint tid, fork_PTID := sint ptid\<rparr>;
     (time, bd) \<leftarrow> u64 bd;
     let obj = obj\<lparr>fork_Time := time\<rparr>;
     Some (Some (RFork obj), r\<lparr>recordFork := obj\<rparr>, bd)
   }"

subsection \<open>parseReadFormat\<close>

text \<open>
  \<^verbatim>\<open>parseReadFormat\<close>, lines 295-330. \<open>out\<close> is the slice behind the pointer argument;
  the iterator is threaded because \<^verbatim>\<open>getAttr\<close> may store an error. The assignments to
  the fields of one entry are one \<open>store\<close> of the whole entry.
\<close>

definition readAttrIf ::
  "bool \<Rightarrow> Records \<Rightarrow> byte list \<Rightarrow> (EventAttr option \<times> Records \<times> byte list) option" where
  "readAttrIf c r bd = (if c
     then do { (aid, bd) \<leftarrow> u64 bd; let (attr, r) = getAttr r aid; Some (attr, r, bd) }
     else Some (None, r, bd))"

definition readGroupEntry ::
  "ReadFormatConsts \<Rightarrow> 64 word \<Rightarrow> nat \<Rightarrow> Records \<times> byte list \<times> SampleRead slice
     \<Rightarrow> (Records \<times> byte list \<times> SampleRead slice) option" where
  "readGroupEntry R f i = (\<lambda>(r, bd, out). do {
     (te, bd) \<leftarrow> u64If (f AND ReadFormatTotalTimeEnabled R \<noteq> 0) bd;
     (tr, bd) \<leftarrow> u64If (f AND ReadFormatTotalTimeRunning R \<noteq> 0) bd;
     (v, bd) \<leftarrow> u64 bd;
     (attr, r, bd) \<leftarrow> readAttrIf (f AND ReadFormatID R \<noteq> 0) r bd;
     out \<leftarrow> store out i \<lparr>rd_Value = v, rd_TimeEnabled = te, rd_TimeRunning = tr,
                            rd_EventAttr = attr\<rparr>;
     Some (r, bd, out)
   })"

definition parseReadFormat ::
  "ReadFormatConsts \<Rightarrow> Records \<Rightarrow> byte list \<Rightarrow> 64 word \<Rightarrow> SampleRead slice
     \<Rightarrow> (Records \<times> byte list \<times> SampleRead slice) option" where
  "parseReadFormat R r bd f out = do {
     (n, bd) \<leftarrow> (if f AND ReadFormatGroup R \<noteq> 0
                   then do { (c, bd) \<leftarrow> u64 bd; Some (sint c, bd) }
                   else Some (1, bd));
     out \<leftarrow> resize zero_SampleRead out n;
     if f AND ReadFormatGroup R = 0 then do {
       (v, bd) \<leftarrow> u64 bd;
       (te, bd) \<leftarrow> u64If (f AND ReadFormatTotalTimeEnabled R \<noteq> 0) bd;
       (tr, bd) \<leftarrow> u64If (f AND ReadFormatTotalTimeRunning R \<noteq> 0) bd;
       (attr, r, bd) \<leftarrow> readAttrIf (f AND ReadFormatID R \<noteq> 0) r bd;
       out \<leftarrow> store out 0 \<lparr>rd_Value = v, rd_TimeEnabled = te, rd_TimeRunning = tr,
                              rd_EventAttr = attr\<rparr>;
       Some (r, bd, out)
     } else for_range [0..<len out] (readGroupEntry R f) (r, bd, out)
   }"

subsection \<open>parseSample\<close>

text \<open>
  \<^verbatim>\<open>parseSample\<close>, lines 190-293, in the order of the source. Each block of the source
  is a definition of its own, named after the lines it translates; \<open>parseSample\<close>
  runs them in sequence. \<open>obj\<close> is the cached record \<^verbatim>\<open>r.recordSample\<close> behind the
  pointer \<^verbatim>\<open>o\<close>, \<open>t\<close> the sample format of the attribute.

  Lines 194-199: the attribute id, 0 when \<^verbatim>\<open>idOffset\<close> is -1, else the 64-bit word at
  that offset of the payload (a slice expression out of range panics).
\<close>

definition parseSample_attrID :: "File \<Rightarrow> byte list \<Rightarrow> attrID option" where
  "parseSample_attrID f bd =
     (if idOffset f = - 1 then Some 0
      else if idOffset f < 0 \<or> int (length bd) < idOffset f then None
      else Uint64 (drop (nat (idOffset f)) bd))"

text \<open>Lines 212-222: the scalar fields.\<close>

definition parseSample_scalars ::
  "SampleFormatConsts \<Rightarrow> 64 word \<Rightarrow> byte list \<Rightarrow> RecordSample
     \<Rightarrow> (byte list \<times> RecordSample) option" where
  "parseSample_scalars S t bd obj = do {
     (_, bd) \<leftarrow> u64If (t AND SampleFormatIdentifier S \<noteq> 0) bd;
     (ip, bd) \<leftarrow> u64If (t AND SampleFormatIP S \<noteq> 0) bd;
     (pid, bd) \<leftarrow> i32If (t AND SampleFormatTID S \<noteq> 0) bd;
     (tid, bd) \<leftarrow> i32If (t AND SampleFormatTID S \<noteq> 0) bd;
     (time, bd) \<leftarrow> u64If (t AND SampleFormatTime S \<noteq> 0) bd;
     (addr, bd) \<leftarrow> u64If (t AND SampleFormatAddr S \<noteq> 0) bd;
     (_, bd) \<leftarrow> u64If (t AND SampleFormatID S \<noteq> 0) bd;
     (sid, bd) \<leftarrow> u64If (t AND SampleFormatStreamID S \<noteq> 0) bd;
     (cpu, bd) \<leftarrow> u32If (t AND SampleFormatCPU S \<noteq> 0) bd;
     (res, bd) \<leftarrow> u32If (t AND SampleFormatCPU S \<noteq> 0) bd;
     (period, bd) \<leftarrow> u64If (t AND SampleFormatPeriod S \<noteq> 0) bd;
     Some (bd, obj\<lparr>IP := ip, PID := sint pid, TID := sint tid, Time := time, Addr := addr,
                   StreamID := sid, CPU := cpu, Res := res, Period := period\<rparr>)
   }"

text \<open>Lines 224-226: the read-format block.\<close>

definition parseSample_read ::
  "Consts \<Rightarrow> 64 word \<Rightarrow> EventAttr \<Rightarrow> Records \<Rightarrow> byte list \<Rightarrow> RecordSample
     \<Rightarrow> (Records \<times> byte list \<times> RecordSample) option" where
  "parseSample_read K t eventAttr r bd obj =
     (if t AND SampleFormatRead (sfc K) \<noteq> 0
      then do {
        (r, bd, out) \<leftarrow> parseReadFormat (rfc K) r bd (ReadFormat eventAttr) (SampleRead obj);
        Some (r, bd, obj\<lparr>SampleRead := out\<rparr>)
      }
      else Some (r, bd, obj))"

text \<open>Lines 228-238: the call chain.\<close>

definition parseSample_callchain ::
  "SampleFormatConsts \<Rightarrow> 64 word \<Rightarrow> byte list \<Rightarrow> RecordSample
     \<Rightarrow> (byte list \<times> RecordSample) option" where
  "parseSample_callchain S t bd obj =
     (if t AND SampleFormatCallchain S \<noteq> 0
      then do {
        (n, bd) \<leftarrow> u64 bd;
        let callchainLen = sint n;
        cc \<leftarrow> resize 0 (Callchain obj) callchainLen;
        (cc, bd) \<leftarrow> u64s cc bd;
        Some (bd, obj\<lparr>Callchain := cc\<rparr>)
      }
      else Some (bd, obj\<lparr>Callchain := Nil_slice\<rparr>))"

text \<open>Lines 240-241: the raw bytes are skipped.\<close>

definition parseSample_raw ::
  "SampleFormatConsts \<Rightarrow> 64 word \<Rightarrow> byte list \<Rightarrow> byte list option" where
  "parseSample_raw S t bd = do {
     (rawSize, bd) \<leftarrow> u32If (t AND SampleFormatRaw S \<noteq> 0) bd;
     skip (uint rawSize) bd
   }"

text \<open>Lines 243-255: the branch stack. There is no else branch.\<close>

definition readBranch ::
  "nat \<Rightarrow> byte list \<times> BranchRecord slice \<Rightarrow> (byte list \<times> BranchRecord slice) option" where
  "readBranch i = (\<lambda>(bd, bs). do {
     (from, bd) \<leftarrow> u64 bd;
     (to, bd) \<leftarrow> u64 bd;
     (flags, bd) \<leftarrow> u64 bd;
     bs \<leftarrow> store bs i \<lparr>From = from, To = to, Flags = flags\<rparr>;
     Some (bd, bs)
   })"

definition parseSample_branch ::
  "SampleFormatConsts \<Rightarrow> 64 word \<Rightarrow> byte list \<Rightarrow> RecordSample
     \<Rightarrow> (byte list \<times> RecordSample) option" where
  "parseSample_branch S t bd obj =
     (if t AND SampleFormatBranchStack S \<noteq> 0
      then do {
        (n, bd) \<leftarrow> u64 bd;
        let count = sint n;
        bs \<leftarrow> resize zero_BranchRecord (BranchStack obj) count;
        (bd, bs) \<leftarrow> for_range [0..<len bs] readBranch (bd, bs);
        Some (bd, obj\<lparr>BranchStack := bs\<rparr>)
      }
      else Some (bd, obj))"

text \<open>Lines 257-266: the user registers. There is no else branch.\<close>

definition parseSample_regs ::
  "SampleFormatConsts \<Rightarrow> 64 word \<Rightarrow> EventAttr \<Rightarrow> byte list \<Rightarrow> RecordSample
     \<Rightarrow> (byte list \<times> RecordSample) option" where
  "parseSample_regs S t eventAttr bd obj =
     (if t AND SampleFormatRegsUser S \<noteq> 0
      then do {
        (abi_tag, bd) \<leftarrow> u64 bd;
        let count = weight (SampleRegsUser eventAttr);
        regs \<leftarrow> resize 0 (Regs obj) count;
        (regs, bd) \<leftarrow> u64s regs bd;
        Some (bd, obj\<lparr>RegsABI := abi_tag, Regs := regs\<rparr>)
      }
      else Some (bd, obj))"

text \<open>Lines 268-280: the user stack.\<close>

definition parseSample_stack ::
  "SampleFormatConsts \<Rightarrow> 64 word \<Rightarrow> byte list \<Rightarrow> RecordSample
     \<Rightarrow> (byte list \<times> RecordSample) option" where
  "parseSample_stack S t bd obj =
     (if t AND SampleFormatStackUser S \<noteq> 0
      then do {
        (n, bd) \<leftarrow> u64 bd;
        let size = sint n;
        st \<leftarrow> resize 0 (StackUser obj) size;
        (st, bd) \<leftarrow> bytes st bd;
        (dyn, bd) \<leftarrow> u64 bd;
        Some (bd, obj\<lparr>StackUser := st, StackUserDynSize := dyn\<rparr>)
      }
      else Some (bd, obj\<lparr>StackUser := Nil_slice, StackUserDynSize := 0\<rparr>))"

text \<open>Lines 282-290: weight, data source, transaction.\<close>

definition parseSample_tail ::
  "Consts \<Rightarrow> 64 word \<Rightarrow> byte list \<Rightarrow> RecordSample \<Rightarrow> (byte list \<times> RecordSample) option" where
  "parseSample_tail K t bd obj = do {
     (w, bd) \<leftarrow> u64If (t AND SampleFormatWeight (sfc K) \<noteq> 0) bd;
     let obj = obj\<lparr>Weight := w\<rparr>;
     (bd, obj) \<leftarrow> (if t AND SampleFormatDataSrc (sfc K) \<noteq> 0
        then do { (d, bd) \<leftarrow> u64 bd; Some (bd, obj\<lparr>DataSrc := decodeDataSrc (dsc K) d\<rparr>) }
        else Some (bd, obj));
     (transaction, bd) \<leftarrow> u64If (t AND SampleFormatTransaction (sfc K) \<noteq> 0) bd;
     Some (bd, obj\<lparr>Transaction := transaction AND 0xffffffff,
                   AbortCode := ucast (drop_bit 32 transaction)\<rparr>)
   }"

definition parseSample ::
  "Consts \<Rightarrow> Records \<Rightarrow> byte list \<Rightarrow> recordHeader
     \<Rightarrow> (Record_t option \<times> Records \<times> byte list) option" where
  "parseSample K r bd hdr = do {
     attr \<leftarrow> parseSample_attrID (rs_f r) bd;
     (case getAttr r attr of
        (None, r) \<Rightarrow> Some (None, r, bd)
      | (Some eventAttr, r) \<Rightarrow> do {
          let obj = recordSample r;
          let obj = obj\<lparr>EventAttr := Some eventAttr\<rparr>;
          let obj = obj\<lparr>CPUMode := Misc hdr AND recordMiscCPUModeMask (mc K),
                        ExactIP := (Misc hdr AND recordMiscExactIP (mc K) \<noteq> 0)\<rparr>;
          let t = SampleFormat eventAttr;
          (bd, obj) \<leftarrow> parseSample_scalars (sfc K) t bd obj;
          (r, bd, obj) \<leftarrow> parseSample_read K t eventAttr r bd obj;
          (bd, obj) \<leftarrow> parseSample_callchain (sfc K) t bd obj;
          bd \<leftarrow> parseSample_raw (sfc K) t bd;
          (bd, obj) \<leftarrow> parseSample_branch (sfc K) t bd obj;
          (bd, obj) \<leftarrow> parseSample_regs (sfc K) t eventAttr bd obj;
          (bd, obj) \<leftarrow> parseSample_stack (sfc K) t bd obj;
          (bd, obj) \<leftarrow> parseSample_tail K t bd obj;
          Some (Some (RSample obj), r\<lparr>recordSample := obj\<rparr>, bd)
        })
   }"

subsection \<open>Next\<close>

text \<open>
  \<^verbatim>\<open>io.ReadFull\<close> on the rest of the stream: the bytes read, the stream after the read
  and the error. A read of \<open>n\<close> bytes succeeds when \<open>n\<close> bytes are left (also for
  \<open>n = 0\<close>); with none left it fails with \<^verbatim>\<open>io.EOF\<close>, with fewer than \<open>n\<close> with
  \<^verbatim>\<open>io.ErrUnexpectedEOF\<close>. The stream is a finite list of bytes: the byte source
  itself raises no other error.
\<close>

definition ReadFull :: "byte list \<Rightarrow> nat \<Rightarrow> error option \<times> byte list \<times> byte list" where
  "ReadFull s n =
     (if n \<le> length s then (None, take n s, drop n s)
      else (Some (if s = [] then EOF else ErrUnexpectedEOF), s, []))"

text \<open>
  The header as \<^verbatim>\<open>binary.Read\<close> fills it from 8 bytes: kind (4 bytes), misc (2 bytes),
  size (2 bytes), little-endian. The struct is declared outside the source files; the
  layout is the one of section 4.2 of the specification.
\<close>

definition decodeHeader :: "byte list \<Rightarrow> recordHeader" where
  "decodeHeader b = \<lparr> Type = le_word (take 4 b), Misc = le_word (take 2 (drop 4 b)),
                      Size = le_word (take 2 (drop 6 b)) \<rparr>"

text \<open>The switch of lines 83-115.\<close>

definition parseRecord ::
  "Consts \<Rightarrow> Records \<Rightarrow> byte list \<Rightarrow> recordHeader
     \<Rightarrow> (Record_t option \<times> Records \<times> byte list) option" where
  "parseRecord K r bd hdr =
     (if Type hdr = RecordTypeMmap then parseMmap K r bd hdr False
      else if Type hdr = RecordTypeLost then parseLost r bd hdr
      else if Type hdr = RecordTypeComm then parseComm K r bd hdr
      else if Type hdr = RecordTypeExit then parseExit r bd hdr
      else if Type hdr = RecordTypeThrottle then parseThrottle r bd hdr True
      else if Type hdr = RecordTypeUnthrottle then parseThrottle r bd hdr False
      else if Type hdr = RecordTypeFork then parseFork r bd hdr
      else if Type hdr = RecordTypeSample then parseSample K r bd hdr
      else if Type hdr = recordTypeMmap2 then parseMmap K r bd hdr True
      else Some (Some (RecordUnknown hdr), r, bd))"

text \<open>
  \<^verbatim>\<open>func (r *Records) Next() bool\<close>, lines 55-120. The result is the returned boolean
  and the iterator after the call; \<open>None\<close> when a decoder panics. \<open>hdr.Size - 8\<close> is
  computed in 16 bits, as in the source, and converted to \<^verbatim>\<open>int\<close>.
\<close>

definition Next :: "Consts \<Rightarrow> Records \<Rightarrow> (bool \<times> Records) option" where
  "Next K r =
     (if rs_err r \<noteq> None then Some (False, r)
      else case ReadFull (rs_sr r) 8 of
        (Some e, hb, s1) \<Rightarrow>
          Some (False, if e \<noteq> EOF then r\<lparr>rs_sr := s1, rs_err := Some e\<rparr> else r\<lparr>rs_sr := s1\<rparr>)
      | (None, hb, s1) \<Rightarrow>
          (let hdr = decodeHeader hb;
               rlen = unat (Size hdr - 8);
               buf = (if rlen > length (rs_buf r) then replicate rlen 0 else rs_buf r)
           in case ReadFull s1 rlen of
             (Some e, got, s2) \<Rightarrow>
               Some (False, r\<lparr>rs_sr := s2, rs_buf := got @ drop (length got) buf,
                               rs_err := Some e\<rparr>)
           | (None, got, s2) \<Rightarrow>
               (let buf = got @ drop rlen buf;
                    bd = take rlen buf;
                    r = r\<lparr>rs_sr := s2, rs_buf := buf\<rparr>
                in do {
                  (rcd, r, bd) \<leftarrow> parseRecord K r bd hdr;
                  let r = r\<lparr>rs_Record := rcd\<rparr>;
                  Some (if rs_err r \<noteq> None then False else True, r)
                })))"

section \<open>Vocabulary of the statements\<close>

text \<open>\<open>Nexts K n r\<close> calls \<^verbatim>\<open>Next\<close> \<open>n\<close> times in a row and collects the results.\<close>

fun Nexts :: "Consts \<Rightarrow> nat \<Rightarrow> Records \<Rightarrow> (bool list \<times> Records) option" where
  "Nexts K 0 r = Some ([], r)"
| "Nexts K (Suc n) r = do { (b, r) \<leftarrow> Next K r; (bs, r) \<leftarrow> Nexts K n r; Some (b # bs, r) }"

text \<open>The kinds that have a case of their own in the switch of \<^verbatim>\<open>Next\<close>.\<close>

definition modeled_kind :: "32 word \<Rightarrow> bool" where
  "modeled_kind k = (k \<in> {RecordTypeMmap, RecordTypeLost, RecordTypeComm, RecordTypeExit,
     RecordTypeThrottle, RecordTypeUnthrottle, RecordTypeFork, RecordTypeSample, recordTypeMmap2})"

subsection \<open>Population count\<close>

text \<open>The number of set bits of a 64-bit word, the specification of \<^verbatim>\<open>weight\<close>.\<close>

definition popcount :: "64 word \<Rightarrow> nat" where
  "popcount x = length (filter (bit x) [0..<64])"

text \<open>
  For the proof, on natural numbers: \<open>pc k n\<close> counts the set bits among the \<open>k\<close> low
  bits of \<open>n\<close>; \<open>fld w k n\<close> is the number whose \<open>k\<close> fields of \<open>w\<close> bits hold the
  counts of the corresponding fields of \<open>n\<close>; \<open>msk w v k\<close> repeats the field value \<open>v\<close>
  in \<open>k\<close> fields of \<open>w\<close> bits.
\<close>

fun pc :: "nat \<Rightarrow> nat \<Rightarrow> nat" where
  "pc 0 n = 0"
| "pc (Suc k) n = n mod 2 + pc k (n div 2)"

fun fld :: "nat \<Rightarrow> nat \<Rightarrow> nat \<Rightarrow> nat" where
  "fld w 0 n = 0"
| "fld w (Suc k) n = pc w n + 2 ^ w * fld w k (n div 2 ^ w)"

fun msk :: "nat \<Rightarrow> nat \<Rightarrow> nat \<Rightarrow> nat" where
  "msk w v 0 = 0"
| "msk w v (Suc k) = v + 2 ^ w * msk w v k"

subsection \<open>Payload layouts\<close>

text \<open>
  The bytes of a payload, field by field, for the statements about the order in which
  the decoders consume it. \<open>enc_if c bs\<close> is a field that is present only when its
  condition holds; \<open>enc_u64s\<close> is a sequence of 64-bit values; \<open>u64s_at n bd\<close> are the
  \<open>n\<close> 64-bit values that start the byte list \<open>bd\<close>.
\<close>

definition enc_if :: "bool \<Rightarrow> byte list \<Rightarrow> byte list" where
  "enc_if c bs = (if c then bs else [])"

definition enc_u64 :: "64 word \<Rightarrow> byte list" where
  "enc_u64 v = le_bytes 8 v"

definition enc_u32 :: "32 word \<Rightarrow> byte list" where
  "enc_u32 v = le_bytes 4 v"

definition enc_u64s :: "64 word list \<Rightarrow> byte list" where
  "enc_u64s vs = concat (map enc_u64 vs)"

definition u64s_at :: "nat \<Rightarrow> byte list \<Rightarrow> 64 word list" where
  "u64s_at n bd = map (\<lambda>i. le_word (take 8 (drop (8 * i) bd))) [0..<n]"

text \<open>
  \<open>fill z s vs\<close> is the slice \<open>s\<close> after the resize idiom to \<open>length vs\<close> elements and
  the assignment of \<open>vs\<close> to them.
\<close>

definition fill :: "'a \<Rightarrow> 'a slice \<Rightarrow> 'a list \<Rightarrow> 'a slice" where
  "fill z s vs = overwrite (the (resize z s (int (length vs)))) vs"

text \<open>
  The values of one entry of a read-format block as they stand in the stream, the two
  layouts of section 4.6 of the specification, and the entry they decode to (\<open>tbl\<close> is
  the attribute table).
\<close>

record ReadWire =
  w_Value :: "64 word"
  w_TimeEnabled :: "64 word"
  w_TimeRunning :: "64 word"
  w_ID :: "64 word"

definition layout_single :: "ReadFormatConsts \<Rightarrow> 64 word \<Rightarrow> ReadWire \<Rightarrow> byte list" where
  "layout_single R f e =
     enc_u64 (w_Value e)
     @ enc_if (f AND ReadFormatTotalTimeEnabled R \<noteq> 0) (enc_u64 (w_TimeEnabled e))
     @ enc_if (f AND ReadFormatTotalTimeRunning R \<noteq> 0) (enc_u64 (w_TimeRunning e))
     @ enc_if (f AND ReadFormatID R \<noteq> 0) (enc_u64 (w_ID e))"

definition layout_group_entry :: "ReadFormatConsts \<Rightarrow> 64 word \<Rightarrow> ReadWire \<Rightarrow> byte list" where
  "layout_group_entry R f e =
     enc_if (f AND ReadFormatTotalTimeEnabled R \<noteq> 0) (enc_u64 (w_TimeEnabled e))
     @ enc_if (f AND ReadFormatTotalTimeRunning R \<noteq> 0) (enc_u64 (w_TimeRunning e))
     @ enc_u64 (w_Value e)
     @ enc_if (f AND ReadFormatID R \<noteq> 0) (enc_u64 (w_ID e))"

definition layout_group :: "ReadFormatConsts \<Rightarrow> 64 word \<Rightarrow> ReadWire list \<Rightarrow> byte list" where
  "layout_group R f es =
     enc_u64 (of_nat (length es)) @ concat (map (layout_group_entry R f) es)"

definition layout_read :: "ReadFormatConsts \<Rightarrow> 64 word \<Rightarrow> ReadWire list \<Rightarrow> byte list" where
  "layout_read R f es =
     (if f AND ReadFormatGroup R = 0 then layout_single R f (hd es) else layout_group R f es)"

definition decoded_read ::
  "ReadFormatConsts \<Rightarrow> 64 word \<Rightarrow> (attrID \<rightharpoonup> EventAttr) \<Rightarrow> ReadWire \<Rightarrow> SampleRead" where
  "decoded_read R f tbl e =
     \<lparr> rd_Value = w_Value e,
       rd_TimeEnabled = (if f AND ReadFormatTotalTimeEnabled R \<noteq> 0 then w_TimeEnabled e else 0),
       rd_TimeRunning = (if f AND ReadFormatTotalTimeRunning R \<noteq> 0 then w_TimeRunning e else 0),
       rd_EventAttr = (if f AND ReadFormatID R \<noteq> 0 then tbl (w_ID e) else None) \<rparr>"

text \<open>The iterator after the attribute lookups of the entries \<open>es\<close>, in order.\<close>

definition lookups :: "bool \<Rightarrow> Records \<Rightarrow> ReadWire list \<Rightarrow> Records" where
  "lookups c r es = (if c then fold (\<lambda>e r. snd (getAttr r (w_ID e))) es r else r)"

text \<open>A well-formed read-format block: one entry without the group bit, a count that
  fits Go's \<^verbatim>\<open>int\<close> with it.\<close>

definition wf_read :: "ReadFormatConsts \<Rightarrow> 64 word \<Rightarrow> ReadWire list \<Rightarrow> bool" where
  "wf_read R f es =
     (if f AND ReadFormatGroup R = 0 then length es = 1 else length es < 2 ^ 63)"

text \<open>
  The values of a sample payload as they stand in the stream, and the layout of
  section 4.5 of the specification: every field is present exactly when its bit of the
  sample format \<open>t\<close> is set.
\<close>

record SampleWire =
  w_identifier :: "64 word"
  w_ip :: "64 word"
  w_pid :: "32 word"
  w_tid :: "32 word"
  w_time :: "64 word"
  w_addr :: "64 word"
  w_id :: "64 word"
  w_stream_id :: "64 word"
  w_cpu :: "32 word"
  w_res :: "32 word"
  w_period :: "64 word"
  w_read :: "ReadWire list"
  w_callchain :: "64 word list"
  w_raw :: "byte list"
  w_branches :: "BranchRecord list"
  w_regs_abi :: "64 word"
  w_regs :: "64 word list"
  w_stack :: "byte list"
  w_stack_dyn :: "64 word"
  w_weight :: "64 word"
  w_data_src :: "64 word"
  w_transaction :: "64 word"

definition layout_branch :: "BranchRecord \<Rightarrow> byte list" where
  "layout_branch b = enc_u64 (From b) @ enc_u64 (To b) @ enc_u64 (Flags b)"

definition layout_scalars :: "SampleFormatConsts \<Rightarrow> 64 word \<Rightarrow> SampleWire \<Rightarrow> byte list" where
  "layout_scalars S t w =
     enc_if (t AND SampleFormatIdentifier S \<noteq> 0) (enc_u64 (w_identifier w))
     @ enc_if (t AND SampleFormatIP S \<noteq> 0) (enc_u64 (w_ip w))
     @ enc_if (t AND SampleFormatTID S \<noteq> 0) (enc_u32 (w_pid w))
     @ enc_if (t AND SampleFormatTID S \<noteq> 0) (enc_u32 (w_tid w))
     @ enc_if (t AND SampleFormatTime S \<noteq> 0) (enc_u64 (w_time w))
     @ enc_if (t AND SampleFormatAddr S \<noteq> 0) (enc_u64 (w_addr w))
     @ enc_if (t AND SampleFormatID S \<noteq> 0) (enc_u64 (w_id w))
     @ enc_if (t AND SampleFormatStreamID S \<noteq> 0) (enc_u64 (w_stream_id w))
     @ enc_if (t AND SampleFormatCPU S \<noteq> 0) (enc_u32 (w_cpu w))
     @ enc_if (t AND SampleFormatCPU S \<noteq> 0) (enc_u32 (w_res w))
     @ enc_if (t AND SampleFormatPeriod S \<noteq> 0) (enc_u64 (w_period w))"

definition layout_callchain :: "64 word list \<Rightarrow> byte list" where
  "layout_callchain cc = enc_u64 (of_nat (length cc)) @ enc_u64s cc"

definition layout_raw :: "byte list \<Rightarrow> byte list" where
  "layout_raw raw = enc_u32 (of_nat (length raw)) @ raw"

definition layout_branches :: "BranchRecord list \<Rightarrow> byte list" where
  "layout_branches bs = enc_u64 (of_nat (length bs)) @ concat (map layout_branch bs)"

definition layout_regs :: "64 word \<Rightarrow> 64 word list \<Rightarrow> byte list" where
  "layout_regs abi_tag regs = enc_u64 abi_tag @ enc_u64s regs"

definition layout_stack :: "byte list \<Rightarrow> 64 word \<Rightarrow> byte list" where
  "layout_stack st dyn = enc_u64 (of_nat (length st)) @ st @ enc_u64 dyn"

definition layout_tail :: "SampleFormatConsts \<Rightarrow> 64 word \<Rightarrow> SampleWire \<Rightarrow> byte list" where
  "layout_tail S t w =
     enc_if (t AND SampleFormatWeight S \<noteq> 0) (enc_u64 (w_weight w))
     @ enc_if (t AND SampleFormatDataSrc S \<noteq> 0) (enc_u64 (w_data_src w))
     @ enc_if (t AND SampleFormatTransaction S \<noteq> 0) (enc_u64 (w_transaction w))"

definition layout_sample :: "Consts \<Rightarrow> EventAttr \<Rightarrow> SampleWire \<Rightarrow> byte list" where
  "layout_sample K ea w =
     (let S = sfc K; t = SampleFormat ea in
      layout_scalars S t w
      @ enc_if (t AND SampleFormatRead S \<noteq> 0) (layout_read (rfc K) (ReadFormat ea) (w_read w))
      @ enc_if (t AND SampleFormatCallchain S \<noteq> 0) (layout_callchain (w_callchain w))
      @ enc_if (t AND SampleFormatRaw S \<noteq> 0) (layout_raw (w_raw w))
      @ enc_if (t AND SampleFormatBranchStack S \<noteq> 0) (layout_branches (w_branches w))
      @ enc_if (t AND SampleFormatRegsUser S \<noteq> 0) (layout_regs (w_regs_abi w) (w_regs w))
      @ enc_if (t AND SampleFormatStackUser S \<noteq> 0) (layout_stack (w_stack w) (w_stack_dyn w))
      @ layout_tail S t w)"

text \<open>
  A well-formed sample payload: the collection lengths fit their count fields (a
  64-bit count is converted to Go's \<^verbatim>\<open>int\<close>, the raw size is 32 bits wide), and the
  number of register values is the population count of the register-selection mask.
\<close>

definition wf_sample :: "Consts \<Rightarrow> EventAttr \<Rightarrow> SampleWire \<Rightarrow> bool" where
  "wf_sample K ea w =
     (let S = sfc K; t = SampleFormat ea in
      (t AND SampleFormatRead S \<noteq> 0 \<longrightarrow> wf_read (rfc K) (ReadFormat ea) (w_read w))
      \<and> (t AND SampleFormatCallchain S \<noteq> 0 \<longrightarrow> length (w_callchain w) < 2 ^ 63)
      \<and> (t AND SampleFormatRaw S \<noteq> 0 \<longrightarrow> length (w_raw w) < 2 ^ 32)
      \<and> (t AND SampleFormatBranchStack S \<noteq> 0 \<longrightarrow> length (w_branches w) < 2 ^ 63)
      \<and> (t AND SampleFormatRegsUser S \<noteq> 0 \<longrightarrow> length (w_regs w) = popcount (SampleRegsUser ea))
      \<and> (t AND SampleFormatStackUser S \<noteq> 0 \<longrightarrow> length (w_stack w) < 2 ^ 63))"

subsection \<open>Example inputs\<close>

text \<open>
  An attribute table with two events, the attribute id at offset 0 of every sample
  payload: event 1 samples the identifier and the branch stack, event 2 the identifier
  only.
\<close>

definition ex_file :: File where
  "ex_file = \<lparr> idOffset = 0,
     idToAttr = [1 \<mapsto> \<lparr>SampleFormat = 0x10800, ReadFormat = 0, SampleRegsUser = 0\<rparr>,
                 2 \<mapsto> \<lparr>SampleFormat = 0x10000, ReadFormat = 0, SampleRegsUser = 0\<rparr>] \<rparr>"

text \<open>Two records of kind 8 (Read, which has no case in the switch), each of size 8.\<close>

definition ex_unknown_stream :: "byte list" where
  "ex_unknown_stream = [8,0,0,0, 0,0, 8,0,  8,0,0,0, 0,0, 8,0]"

text \<open>A header that declares 16 bytes, followed by 3 bytes only.\<close>

definition ex_truncated_stream :: "byte list" where
  "ex_truncated_stream = [0,0,0,0, 0,0, 16,0, 1,2,3]"

definition ex_failed :: Records where
  "ex_failed = snd (the (Next abi (new_Records ex_file ex_truncated_stream)))"

text \<open>A Lost record of event 1 with 7 lost records.\<close>

definition ex_lost_stream :: "byte list" where
  "ex_lost_stream = [2,0,0,0, 0,0, 24,0,  1,0,0,0,0,0,0,0,  7,0,0,0,0,0,0,0]"

text \<open>
  An event whose register-selection mask has bits 0, 2 and 5 set, and a payload with
  an ABI tag, three register values and one more byte.
\<close>

definition ex_regs_attr :: EventAttr where
  "ex_regs_attr = \<lparr>SampleFormat = 0x1000, ReadFormat = 0, SampleRegsUser = 0x25\<rparr>"

definition ex_regs_payload :: "byte list" where
  "ex_regs_payload = [2,0,0,0,0,0,0,0,  0x11,0,0,0,0,0,0,0,  0x22,0,0,0,0,0,0,0,
                      0x33,0,0,0,0,0,0,0,  9]"

text \<open>
  A grouped read-format block of three entries, for the read format \<open>9\<close> (group and
  total-time-enabled): the count, then time-enabled and value of each entry.
\<close>

definition ex_entries :: "ReadWire list" where
  "ex_entries = [\<lparr>w_Value = 10, w_TimeEnabled = 1, w_TimeRunning = 0, w_ID = 0\<rparr>,
                 \<lparr>w_Value = 20, w_TimeEnabled = 2, w_TimeRunning = 0, w_ID = 0\<rparr>,
                 \<lparr>w_Value = 30, w_TimeEnabled = 3, w_TimeRunning = 0, w_ID = 0\<rparr>]"

definition ex_group_payload :: "byte list" where
  "ex_group_payload = [3,0,0,0,0,0,0,0,
     1,0,0,0,0,0,0,0,  10,0,0,0,0,0,0,0,
     2,0,0,0,0,0,0,0,  20,0,0,0,0,0,0,0,
     3,0,0,0,0,0,0,0,  30,0,0,0,0,0,0,0]"

text \<open>
  An event that samples identifier, instruction pointer, call chain and period, and a
  sample payload of it with a call chain of two addresses.
\<close>

definition ex_sample_attr :: EventAttr where
  "ex_sample_attr = \<lparr>SampleFormat = 0x10121, ReadFormat = 0, SampleRegsUser = 0\<rparr>"

definition ex_file2 :: File where
  "ex_file2 = \<lparr> idOffset = 0, idToAttr = [5 \<mapsto> ex_sample_attr] \<rparr>"

definition ex_sample_wire :: SampleWire where
  "ex_sample_wire = \<lparr> w_identifier = 5, w_ip = 0x400000, w_pid = 0, w_tid = 0, w_time = 0,
     w_addr = 0, w_id = 0, w_stream_id = 0, w_cpu = 0, w_res = 0, w_period = 1000,
     w_read = [], w_callchain = [0xA, 0xB], w_raw = [], w_branches = [], w_regs_abi = 0,
     w_regs = [], w_stack = [], w_stack_dyn = 0, w_weight = 0, w_data_src = 0,
     w_transaction = 0 \<rparr>"

definition ex_sample_payload :: "byte list" where
  "ex_sample_payload = [5,0,0,0,0,0,0,0,  0,0,0x40,0,0,0,0,0,  0xE8,3,0,0,0,0,0,0,
     2,0,0,0,0,0,0,0,  0xA,0,0,0,0,0,0,0,  0xB,0,0,0,0,0,0,0]"

definition ex_sample_hdr :: recordHeader where
  "ex_sample_hdr = \<lparr>Type = 9, Misc = 0x4002, Size = 56\<rparr>"

section \<open>Properties\<close>

subsection \<open>The data-source decoder\<close>

lemma and_1_bit: "(w AND 1 \<noteq> 0) = bit w 0" for w :: "64 word"
  using and_exp_eq_0_iff_not_bit[of w 0] by simp
lemma and_2_bit: "(w AND 2 \<noteq> 0) = bit w 1" for w :: "64 word"
  using and_exp_eq_0_iff_not_bit[of w 1] by simp
lemma and_4_bit: "(w AND 4 \<noteq> 0) = bit w 2" for w :: "64 word"
  using and_exp_eq_0_iff_not_bit[of w 2] by simp

lemma field_masks:
  "(0x1f :: 64 word) = mask 5" "(0x3fff :: 64 word) = mask 14"
  "(0x3 :: 64 word) = mask 2" "(0x7f :: 64 word) = mask 7"
  by (simp_all add: mask_eq_exp_minus_1)

lemma field_shift:
  "drop_bit k (take_bit (k + m) (drop_bit j d)) = take_bit m (drop_bit (j + k) d)" for d :: "64 word"
  by (rule bit_eqI) (auto simp: bit_simps ac_simps)

lemma field_bit:
  "i < m \<Longrightarrow> bit (take_bit m (drop_bit j d)) i = bit d (j + i)" for d :: "64 word"
  by (simp add: bit_simps ac_simps)

text \<open>
  Claim C7. \<open>decodeDataSrc\<close> is a total function of the 64-bit word: op is bits 0-4,
  level bits 5-18, snoop bits 19-23, lock bits 24-25, dtlb bits 26-32 of the input. Each
  decoded field depends on the bits of its own sub-field only; when the lowest bit of a
  sub-field is set the result is that sub-field's not-applicable sentinel, whatever the
  other bits are; when the lowest bit of the level field (bit 5) is clear, the miss flag
  is bit 2 of the level field (bit 7 of the word) and the level is the field shifted
  right by 3 (bits 8-18 of the word).
\<close>

theorem decodeDataSrc_fields:
  "Op (decodeDataSrc D d) = (if bit d 0 then DataSrcOpNA D else take_bit 4 (drop_bit 1 d))
   \<and> Miss (decodeDataSrc D d) = (\<not> bit d 5 \<and> bit d 7)
   \<and> Level (decodeDataSrc D d) = (if bit d 5 then DataSrcLevelNA D else take_bit 11 (drop_bit 8 d))
   \<and> Snoop (decodeDataSrc D d) = (if bit d 19 then DataSrcSnoopNA D else take_bit 4 (drop_bit 20 d))
   \<and> Locked (decodeDataSrc D d) =
       (if bit d 24 then DataSrcLockNA D
        else if bit d 25 then DataSrcLockLocked D else DataSrcLockUnlocked D)
   \<and> TLB (decodeDataSrc D d) = (if bit d 26 then DataSrcTLBNA D else take_bit 6 (drop_bit 27 d))"
proof -
  have s1: "drop_bit (Suc 0) (take_bit 5 d) = take_bit 4 (drop_bit (Suc 0) d)"
    using field_shift[of 1 4 0 d] by simp
  have s2: "drop_bit 3 (take_bit 14 (drop_bit 5 d)) = take_bit 11 (drop_bit 8 d)"
    using field_shift[of 3 11 5 d] by simp
  have s3: "drop_bit (Suc 0) (take_bit 5 (drop_bit 19 d)) = take_bit 4 (drop_bit 20 d)"
    using field_shift[of 1 4 19 d] by simp
  have s4: "drop_bit (Suc 0) (take_bit 7 (drop_bit 26 d)) = take_bit 6 (drop_bit 27 d)"
    using field_shift[of 1 6 26 d] by simp
  have b: "bit (take_bit 5 d) 0 = bit d 0"
    "bit (take_bit 14 (drop_bit 5 d)) 0 = bit d 5"
    "bit (take_bit 14 (drop_bit 5 d)) 2 = bit d 7"
    "bit (take_bit 5 (drop_bit 19 d)) 0 = bit d 19"
    "bit (take_bit 2 (drop_bit 24 d)) 0 = bit d 24"
    "bit (take_bit 2 (drop_bit 24 d)) (Suc 0) = bit d 25"
    "bit (take_bit 7 (drop_bit 26 d)) 0 = bit d 26"
    by (simp_all add: bit_simps)
  show ?thesis
    unfolding decodeDataSrc_def Let_def
    by (simp add: field_masks and_1_bit and_2_bit and_4_bit s1 s2 s3 s4 b del: bit_0 flip: take_bit_eq_mask)
qed

text \<open>
  The word \<open>0x49F\<close> has op \<open>0x1f\<close> (not-applicable bit and all other op bits set) and
  level field \<open>0x24\<close>, the pattern "L2 cache, miss".
\<close>

theorem decodeDataSrc_fields_witness:
  "Op (decodeDataSrc (dsc abi) 0x49F) = DataSrcOpNA (dsc abi)
   \<and> Miss (decodeDataSrc (dsc abi) 0x49F)
   \<and> Level (decodeDataSrc (dsc abi) 0x49F) = 4"
  using decodeDataSrc_fields[of "dsc abi" "0x49F"]
  by (simp add: bit_simps drop_bit_eq_div take_bit_eq_mod del: bit_0) 


subsection \<open>Evaluation of the iterator on concrete streams\<close>

lemmas eval_simps = Next_def new_Records_def ReadFull_def decodeHeader_def Let_def parseRecord_def
  RecordTypeMmap_def RecordTypeLost_def RecordTypeComm_def RecordTypeExit_def RecordTypeThrottle_def
  RecordTypeUnthrottle_def RecordTypeFork_def RecordTypeSample_def recordTypeMmap2_def Err_def

subsection \<open>Sticky failures\<close>

text \<open>
  Claim C8. Once the iterator's error is set, every later call of \<^verbatim>\<open>Next\<close> returns false
  and leaves the iterator as it is: no byte of the stream is read, nothing is decoded,
  and \<^verbatim>\<open>Err\<close> still returns the same error. Stated for any number \<open>n\<close> of calls.
\<close>

theorem Next_sticky:
  "Err r = Some e \<Longrightarrow> Nexts K n r = Some (replicate n False, r) \<and> Err r = Some e"
  by (induction n) (simp_all add: Next_def Err_def)

text \<open>
  The iterator after a truncated record: the error is \<^verbatim>\<open>io.ErrUnexpectedEOF\<close>, two more
  calls both return false and change nothing.
\<close>

theorem Next_sticky_witness:
  "Err ex_failed = Some ErrUnexpectedEOF
   \<and> Nexts abi 2 ex_failed = Some ([False, False], ex_failed)"
proof -
  have e: "Err ex_failed = Some ErrUnexpectedEOF"
    by (simp add: ex_failed_def eval_simps ex_truncated_stream_def)
  show ?thesis
    using Next_sticky[OF e, of abi 2] e by (simp add: numeral_2_eq_2)
qed

subsection \<open>Unknown record kinds\<close>

lemma ReadFull_append:
  "length a = n \<Longrightarrow> ReadFull (a @ b) n = (None, a, b)"
  by (simp add: ReadFull_def)

lemma Size_sub8: "8 \<le> unat (s :: 16 word) \<Longrightarrow> unat (s - 8) = unat s - 8"
  by (simp add: unat_sub word_le_nat_alt)

text \<open>
  Claim C9. A well-framed record (declared size at least 8, that many bytes present)
  whose kind has no case in the switch: \<^verbatim>\<open>Next\<close> returns true, records no error, the
  current record is \<^verbatim>\<open>RecordUnknown\<close> with exactly the header read, and the stream
  stands right after the record, so the iteration goes on; the bytes consumed are the 8
  of the header and the \<open>Size - 8\<close> of the payload, none for a header of size 8.
\<close>

theorem Next_unknown_kind:
  assumes "Err r = None"
    and "length hb = 8" and "hdr = decodeHeader hb"
    and "\<not> modeled_kind (Type hdr)"
    and "8 \<le> unat (Size hdr)" and "length payload = unat (Size hdr) - 8"
    and "rs_sr r = hb @ payload @ rest"
  shows "\<exists>r'. Next K r = Some (True, r')
     \<and> rs_Record r' = Some (RecordUnknown hdr) \<and> Err r' = None \<and> rs_sr r' = rest
     \<and> length (rs_sr r) - length (rs_sr r') = 8 + (unat (Size hdr) - 8)"
proof -
  have l: "length payload = unat (Size (decodeHeader hb) - 8)"
    using assms(3,5,6) by (simp add: Size_sub8)
  have k: "parseRecord K r0 bd (decodeHeader hb) = Some (Some (RecordUnknown (decodeHeader hb)), r0, bd)" for r0 bd
    using assms(3,4) by (simp add: parseRecord_def modeled_kind_def)
  show ?thesis
    using assms(1,2,3,6) 
    by (simp add: Next_def Err_def assms(7) ReadFull_append ReadFull_append[OF l] Let_def k l[symmetric])
qed


theorem Next_unknown_kind_witness:
  "\<exists>r'. Next abi (new_Records ex_file ex_unknown_stream) = Some (True, r')
     \<and> rs_Record r' = Some (RecordUnknown \<lparr>Type = 8, Misc = 0, Size = 8\<rparr>)
     \<and> Err r' = None \<and> rs_sr r' = [8,0,0,0, 0,0, 8,0]
     \<and> length (rs_sr (new_Records ex_file ex_unknown_stream)) - length (rs_sr r') = 8"
  using Next_unknown_kind[of "new_Records ex_file ex_unknown_stream" "[8,0,0,0, 0,0, 8,0]"
      "\<lparr>Type = 8, Misc = 0, Size = 8\<rparr>" "[]" "[8,0,0,0, 0,0, 8,0]" abi]
  by (simp add: new_Records_def Err_def decodeHeader_def modeled_kind_def ex_unknown_stream_def
      RecordTypeMmap_def RecordTypeLost_def RecordTypeComm_def RecordTypeExit_def
      RecordTypeThrottle_def RecordTypeUnthrottle_def RecordTypeFork_def RecordTypeSample_def
      recordTypeMmap2_def)

subsection \<open>A returned record never comes with an error\<close>

lemma getAttr_err:
  assumes "getAttr r a = (x, r')" and "rs_err r' = None"
  shows "x \<noteq> None \<and> rs_err r = None"
proof (cases "idToAttr (rs_f r) a")
  case None
  then show ?thesis using assms by (auto simp: getAttr_def)
next
  case (Some y)
  then have "x = Some y" "r' = r" using assms(1) by (simp_all add: getAttr_def)
  then show ?thesis using assms(2) by simp
qed

lemma parseMmap_kind:
  "parseMmap K r bd hdr v2 = Some (rcd, r', bd') \<Longrightarrow> \<exists>m. rcd = Some (RMmap m)"
  unfolding parseMmap_def Let_def
  by (auto split: bind_splits prod.splits if_splits)

lemma parseComm_kind:
  "parseComm K r bd hdr = Some (rcd, r', bd') \<Longrightarrow> \<exists>m. rcd = Some (RComm m)"
  unfolding parseComm_def Let_def
  by (auto split: bind_splits prod.splits if_splits)

lemma parseExit_kind:
  "parseExit r bd hdr = Some (rcd, r', bd') \<Longrightarrow> \<exists>m. rcd = Some (RExit m)"
  unfolding parseExit_def Let_def
  by (auto split: bind_splits prod.splits if_splits)

lemma parseFork_kind:
  "parseFork r bd hdr = Some (rcd, r', bd') \<Longrightarrow> \<exists>m. rcd = Some (RFork m)"
  unfolding parseFork_def Let_def
  by (auto split: bind_splits prod.splits if_splits)

lemma parseLost_attr:
  "parseLost r bd hdr = Some (rcd, r', bd') \<Longrightarrow> rs_err r' = None \<Longrightarrow>
     \<exists>l. rcd = Some (RLost l) \<and> lost_EventAttr l \<noteq> None"
  unfolding parseLost_def Let_def
  by (auto split: bind_splits prod.splits if_splits dest: getAttr_err)

lemma parseThrottle_attr:
  "parseThrottle r bd hdr en = Some (rcd, r', bd') \<Longrightarrow> rs_err r' = None \<Longrightarrow>
     \<exists>l. rcd = Some (RThrottle l) \<and> thr_EventAttr l \<noteq> None"
  unfolding parseThrottle_def Let_def
  by (auto split: bind_splits prod.splits if_splits dest: getAttr_err)

lemma scalars_attr:
  "parseSample_scalars S t bd obj = Some (bd', obj') \<Longrightarrow> EventAttr obj' = EventAttr obj"
  unfolding parseSample_scalars_def
  by (auto split: bind_splits prod.splits)

lemma read_attr:
  "parseSample_read K t ea r bd obj = Some (r', bd', obj') \<Longrightarrow> EventAttr obj' = EventAttr obj"
  unfolding parseSample_read_def
  by (auto split: bind_splits prod.splits if_splits)

lemma callchain_attr:
  "parseSample_callchain S t bd obj = Some (bd', obj') \<Longrightarrow> EventAttr obj' = EventAttr obj"
  unfolding parseSample_callchain_def Let_def
  by (auto split: bind_splits prod.splits if_splits)

lemma branch_attr:
  "parseSample_branch S t bd obj = Some (bd', obj') \<Longrightarrow> EventAttr obj' = EventAttr obj"
  unfolding parseSample_branch_def Let_def
  by (auto split: bind_splits prod.splits if_splits)

lemma regs_attr:
  "parseSample_regs S t ea bd obj = Some (bd', obj') \<Longrightarrow> EventAttr obj' = EventAttr obj"
  unfolding parseSample_regs_def Let_def
  by (auto split: bind_splits prod.splits if_splits)

lemma stack_attr:
  "parseSample_stack S t bd obj = Some (bd', obj') \<Longrightarrow> EventAttr obj' = EventAttr obj"
  unfolding parseSample_stack_def Let_def
  by (auto split: bind_splits prod.splits if_splits)

lemma tail_attr:
  "parseSample_tail K t bd obj = Some (bd', obj') \<Longrightarrow> EventAttr obj' = EventAttr obj"
  unfolding parseSample_tail_def Let_def
  by (auto split: bind_splits prod.splits if_splits)

lemma parseSample_attr:
  assumes "parseSample K r bd hdr = Some (rcd, r', bd')"
  shows "(rcd = None \<and> rs_err r' \<noteq> None) \<or> (\<exists>s. rcd = Some (RSample s) \<and> EventAttr s \<noteq> None)"
proof -
  obtain a where a: "parseSample_attrID (rs_f r) bd = Some a"
    using assms unfolding parseSample_def by (auto split: bind_splits)
  obtain x r1 where g: "getAttr r a = (x, r1)" by (cases "getAttr r a")
  show ?thesis
  proof (cases x)
    case None
    then show ?thesis
      using assms a g unfolding parseSample_def
      by (auto simp: getAttr_def split: option.splits)
  next
    case (Some ea)
    then show ?thesis
      using assms a g unfolding parseSample_def Let_def
      by (auto split: bind_splits prod.splits
          dest!: scalars_attr read_attr callchain_attr branch_attr regs_attr stack_attr tail_attr)
  qed
qed

text \<open>
  Claim C10. When \<^verbatim>\<open>Next\<close> returns true the stored error is nil (and was nil before the
  call). A failed attribute lookup stores an error and makes the same call return
  false: a record returned with true is never nil, and the attribute of a returned
  Lost, Throttle or Sample record is never the nil of a failed lookup.
\<close>

theorem Next_true_no_error:
  assumes "Next K r = Some (True, r')"
  shows "Err r' = None \<and> Err r = None \<and> rs_Record r' \<noteq> None
     \<and> (\<forall>l. rs_Record r' = Some (RLost l) \<longrightarrow> lost_EventAttr l \<noteq> None)
     \<and> (\<forall>l. rs_Record r' = Some (RThrottle l) \<longrightarrow> thr_EventAttr l \<noteq> None)
     \<and> (\<forall>s. rs_Record r' = Some (RSample s) \<longrightarrow> EventAttr s \<noteq> None)"
proof -
  have e: "rs_err r' = None" "rs_err r = None"
    using assms unfolding Next_def Let_def
    by (auto split: if_splits prod.splits option.splits bind_splits)
  obtain r0 bd hdr rcd r1 bd1 where
    p: "parseRecord K r0 bd hdr = Some (rcd, r1, bd1)" and r': "r' = r1\<lparr>rs_Record := rcd\<rparr>"
    using assms unfolding Next_def Let_def
    by (auto split: if_splits prod.splits option.splits bind_splits)
  have e1: "rs_err r1 = None" using e(1) r' by simp
  have "rcd \<noteq> None
     \<and> (\<forall>l. rcd = Some (RLost l) \<longrightarrow> lost_EventAttr l \<noteq> None)
     \<and> (\<forall>l. rcd = Some (RThrottle l) \<longrightarrow> thr_EventAttr l \<noteq> None)
     \<and> (\<forall>s. rcd = Some (RSample s) \<longrightarrow> EventAttr s \<noteq> None)"
    using p e1 unfolding parseRecord_def
    by (auto split: if_splits
        dest!: parseMmap_kind parseComm_kind parseExit_kind parseFork_kind parseLost_attr
          parseThrottle_attr parseSample_attr)
  then show ?thesis using e r' by (simp add: Err_def)
qed


theorem Next_true_no_error_witness:
  "Next abi (new_Records ex_file ex_lost_stream)
     = Some (True, snd (the (Next abi (new_Records ex_file ex_lost_stream))))
   \<and> Err (snd (the (Next abi (new_Records ex_file ex_lost_stream)))) = None
   \<and> rs_Record (snd (the (Next abi (new_Records ex_file ex_lost_stream))))
       = Some (RLost \<lparr>lost_EventAttr = Some \<lparr>SampleFormat = 0x10800, ReadFormat = 0, SampleRegsUser = 0\<rparr>,
                       lost_NumLost = 7\<rparr>)"
proof -
  have n: "Next abi (new_Records ex_file ex_lost_stream)
     = Some (True, snd (the (Next abi (new_Records ex_file ex_lost_stream))))"
    by (simp add: eval_simps ex_lost_stream_def ex_file_def parseLost_def u64_def Uint64_def getAttr_def)
  have "rs_Record (snd (the (Next abi (new_Records ex_file ex_lost_stream))))
       = Some (RLost \<lparr>lost_EventAttr = Some \<lparr>SampleFormat = 0x10800, ReadFormat = 0, SampleRegsUser = 0\<rparr>,
                       lost_NumLost = 7\<rparr>)"
    by (simp add: eval_simps ex_lost_stream_def ex_file_def parseLost_def u64_def Uint64_def getAttr_def)
  then show ?thesis
    using Next_true_no_error[OF n] n by simp
qed



subsection \<open>weight is the population count\<close>

lemma pc_le: "pc k n \<le> k"
proof (induction k arbitrary: n)
  case 0 show ?case by simp
next
  case (Suc k)
  have "n mod 2 \<le> 1" by simp
  with Suc[of "n div 2"] show ?case by simp
qed

lemma pc_add: "pc (a + b) n = pc a n + pc b (n div 2 ^ a)"
  by (induction a arbitrary: n) (simp_all add: div_mult2_eq)

lemma and_split_nat:
  "(a AND b) = ((a mod 2 ^ w) AND (b mod 2 ^ w)) + 2 ^ w * ((a div 2 ^ w) AND (b div 2 ^ w))"
  for a b :: nat
proof -
  have t: "(a AND b) mod 2 ^ w = (a mod 2 ^ w) AND (b mod 2 ^ w)"
    using take_bit_and[of w a b] by (simp only: take_bit_eq_mod)
  have d: "(a AND b) div 2 ^ w = (a div 2 ^ w) AND (b div 2 ^ w)"
    using drop_bit_and[of w a b] by (simp only: drop_bit_eq_div)
  show ?thesis
    unfolding t[symmetric] d[symmetric] by simp
qed

lemma and_le_left: "a AND b \<le> a" for a b :: nat
  by (metis AND_upper1 of_nat_0_le_iff of_nat_and_eq of_nat_le_iff)

lemma and_mask_nat: "a AND (2 ^ w - 1) = a mod 2 ^ w" for a :: nat
proof -
  have "a AND mask w = a mod 2 ^ w"
    by (simp add: take_bit_eq_mod flip: take_bit_eq_mask)
  then show ?thesis by (simp only: mask_eq_exp_minus_1)
qed

lemma and_1_nat: "a AND 1 = a mod 2" for a :: nat
  using and_mask_nat[of a 1] by simp
lemma and_3_nat: "a AND 3 = a mod 4" for a :: nat
  using and_mask_nat[of a 2] by simp
lemma and_15_nat: "a AND 15 = a mod 16" for a :: nat
  using and_mask_nat[of a 4] by simp

lemma msk_mod: "v < 2 ^ w \<Longrightarrow> msk w v (Suc k) mod 2 ^ w = v"
  by simp
lemma msk_div: "v < 2 ^ w \<Longrightarrow> msk w v (Suc k) div 2 ^ w = msk w v k"
  by simp

lemma and_msk_Suc:
  "v < 2 ^ w \<Longrightarrow>
   a AND msk w v (Suc k) = ((a mod 2 ^ w) AND v) + 2 ^ w * ((a div 2 ^ w) AND msk w v k)"
  using and_split_nat[of a "msk w v (Suc k)" w] by (simp only: msk_mod msk_div)

lemma step1:
  "n < 4 ^ k \<Longrightarrow> n - ((n div 2) AND msk 2 1 k) = fld 2 k n"
proof (induction k arbitrary: n)
  case 0
  then show ?case by simp
next
  case (Suc k)
  define q where "q = n div 4"
  define X where "X = (q div 2) AND msk 2 1 k"
  define b where "b = (n div 2) mod 2"
  have ql: "q < 4 ^ k" using Suc.prems unfolding q_def by simp
  have Xq: "X \<le> q"
    unfolding X_def using and_le_left[of "q div 2" "msk 2 1 k"] by linarith
  have IH: "fld 2 k q = q - X"
    unfolding X_def using Suc.IH[OF ql] by simp
  have a1: "((n div 2) mod 2 ^ 2) AND 1 = b"
    unfolding b_def by (simp add: and_1_nat mod_mod_cancel)
  have a2: "(n div 2) div 2 ^ 2 = q div 2" 
    unfolding q_def by simp
  have "(n div 2) AND msk 2 1 (Suc k) = b + 2 ^ 2 * X"
    unfolding X_def using and_msk_Suc[of 1 2 "n div 2" k] by (simp only: a1 a2) simp
  moreover have "n = 4 * q + (n mod 2 + 2 * b)"
    unfolding q_def b_def by presburger
  moreover have "fld 2 (Suc k) n = (n mod 2 + b) + 4 * (q - X)"
    unfolding b_def using IH by (simp add: q_def numeral_2_eq_2)
  ultimately show ?case using Xq by simp
qed


lemma fld_unfold2:
  "fld w (Suc (Suc k)) n = pc w n + 2 ^ w * pc w (n div 2 ^ w) + 2 ^ (2 * w) * fld w k (n div 2 ^ (2 * w))"
proof -
  have "(2::nat) ^ (2 * w) = 2 ^ w * 2 ^ w"
    by (simp add: power_add mult_2)
  then show ?thesis
    by (simp add: div_mult2_eq algebra_simps del: power_mult_numeral)
qed

lemma step2:
  "(fld 2 (2 * k) n AND msk 4 3 k) + ((fld 2 (2 * k) n div 4) AND msk 4 3 k) = fld 4 k n"
proof (induction k arbitrary: n)
  case 0
  show ?case by simp
next
  case (Suc k)
  define A where "A = pc 2 n"
  define B where "B = pc 2 (n div 4)"
  define R where "R = fld 2 (2 * k) (n div 16)"
  define M where "M = msk 4 3 k"
  have A: "A \<le> 2" and B: "B \<le> 2" unfolding A_def B_def by (rule pc_le)+
  have y: "fld 2 (2 * Suc k) n = A + 4 * B + 16 * R"
    unfolding A_def B_def R_def using fld_unfold2[of 2 "2 * k" n] by simp
  have IH: "(R AND M) + ((R div 4) AND M) = fld 4 k (n div 16)"
    unfolding R_def M_def by (rule Suc.IH)
  have m1: "(A + 4 * B + 16 * R) mod 2 ^ 4 AND 3 = A"
    using A by (simp add: and_3_nat mod_mod_cancel)
  have d1: "(A + 4 * B + 16 * R) div 2 ^ 4 = R"
    using A B by simp
  have e1: "(A + 4 * B + 16 * R) AND msk 4 3 (Suc k) = A + 16 * (R AND M)"
    unfolding M_def using and_msk_Suc[of 3 4 "A + 4 * B + 16 * R" k] by (simp only: m1 d1) simp
  have y4: "(A + 4 * B + 16 * R) div 4 = B + 4 * R"
    using A by simp
  have m2: "(B + 4 * R) mod 2 ^ 4 AND 3 = B"
    using B by (simp add: and_3_nat mod_mod_cancel)
  have d2: "(B + 4 * R) div 2 ^ 4 = R div 4"
    using B by simp
  have e2: "(B + 4 * R) AND msk 4 3 (Suc k) = B + 16 * ((R div 4) AND M)"
    unfolding M_def using and_msk_Suc[of 3 4 "B + 4 * R" k] by (simp only: m2 d2) simp
  have "pc 4 n = A + B"
    unfolding A_def B_def using pc_add[of 2 2 n] by simp
  then have "fld 4 (Suc k) n = A + B + 16 * fld 4 k (n div 16)"
    by simp
  then show ?case
    unfolding y y4 e1 e2 using IH by simp
qed


lemma fld4_mod16: "fld 4 j m mod 16 \<le> 4"
proof (cases j)
  case 0 then show ?thesis by simp
next
  case (Suc i)
  have "pc 4 m \<le> 4" by (rule pc_le)
  then show ?thesis unfolding Suc by simp
qed

lemma step3:
  "((fld 4 (2 * k) n + fld 4 (2 * k) n div 16) AND msk 8 15 k) = fld 8 k n"
proof (induction k arbitrary: n)
  case 0
  show ?case by simp
next
  case (Suc k)
  define A where "A = pc 4 n"
  define B where "B = pc 4 (n div 16)"
  define R where "R = fld 4 (2 * k) (n div 256)"
  define M where "M = msk 8 15 k"
  define r where "r = R mod 16"
  define Q where "Q = R div 16"
  have A: "A \<le> 4" and B: "B \<le> 4" unfolding A_def B_def by (rule pc_le)+
  have r: "r \<le> 4" unfolding r_def R_def by (rule fld4_mod16)
  have R: "R = r + 16 * Q" unfolding r_def Q_def by simp
  have y: "fld 4 (2 * Suc k) n = A + 16 * B + 256 * R"
    unfolding A_def B_def R_def using fld_unfold2[of 4 "2 * k" n] by simp
  have IH: "((R + Q) AND M) = fld 8 k (n div 256)"
    unfolding R_def M_def Q_def by (rule Suc.IH)
  have y16: "(A + 16 * B + 256 * R) div 16 = B + 16 * R"
    using A by simp
  have z: "(A + 16 * B + 256 * R) + (B + 16 * R) = (A + B + 16 * B + 16 * r) + 256 * (R + Q)"
    unfolding R by simp
  have m1: "((A + B + 16 * B + 16 * r) + 256 * (R + Q)) mod 2 ^ 8 AND 15 = A + B"
  proof -
    define Z where "Z = (A + B + 16 * B + 16 * r) + 256 * (R + Q)"
    have Z1: "Z mod 2 ^ 8 mod 16 = Z mod 16"
      by (simp add: mod_mod_cancel)
    have Z2: "Z = (A + B) + 16 * (B + r + 16 * (R + Q))"
      unfolding Z_def by simp
    have Z3: "Z mod 16 = (A + B) mod 16"
      by (subst Z2) (rule mod_mult_self2)
    have "Z mod 2 ^ 8 mod 16 = A + B"
      using Z1 Z3 A B by simp
    then show ?thesis unfolding Z_def by (simp only: and_15_nat)
  qed
  have d1: "((A + B + 16 * B + 16 * r) + 256 * (R + Q)) div 2 ^ 8 = R + Q"
    using A B r by simp
  have e1: "((A + B + 16 * B + 16 * r) + 256 * (R + Q)) AND msk 8 15 (Suc k) = A + B + 256 * ((R + Q) AND M)"
    unfolding M_def
    using and_msk_Suc[of 15 8 "(A + B + 16 * B + 16 * r) + 256 * (R + Q)" k]
    by (simp only: m1 d1) simp
  have "pc 8 n = A + B"
    unfolding A_def B_def using pc_add[of 4 4 n] by simp
  then have "fld 8 (Suc k) n = A + B + 256 * fld 8 k (n div 256)"
    by simp
  then show ?case
    unfolding y y16 z e1 using IH by simp
qed

lemma fld_less: "w < 2 ^ w \<Longrightarrow> fld w k n < 2 ^ (w * k)"
proof (induction k arbitrary: n)
  case 0 show ?case by simp
next
  case (Suc k)
  have p: "pc w n < 2 ^ w" using pc_le[of w n] Suc.prems by linarith
  have "fld w k (n div 2 ^ w) + 1 \<le> 2 ^ (w * k)"
    using Suc.IH[OF Suc.prems, of "n div 2 ^ w"] by simp
  then have "2 ^ w * (fld w k (n div 2 ^ w) + 1) \<le> 2 ^ w * 2 ^ (w * k)"
    by (rule mult_le_mono2)
  then show ?case using p by (simp add: power_add)
qed

lemma fld4_bound: "15 * fld 4 k n + 4 \<le> 4 * 16 ^ k"
proof (induction k arbitrary: n)
  case 0 show ?case by simp
next
  case (Suc k)
  have "pc 4 n \<le> 4" by (rule pc_le)
  with Suc[of "n div 16"] show ?case by simp
qed


lemma step4:
  fixes p0 :: nat
  assumes "p0 \<le> 8" "p1 \<le> 8" "p2 \<le> 8" "p3 \<le> 8" "p4 \<le> 8" "p5 \<le> 8" "p6 \<le> 8" "p7 \<le> 8"
  shows "((p0 + 256 * (p1 + 256 * (p2 + 256 * (p3 + 256 * (p4 + 256 * (p5 + 256 * (p6 + 256 * p7)))))))
            * 0x0101010101010101) mod 2 ^ 64 div 2 ^ 56
         = p0 + p1 + p2 + p3 + p4 + p5 + p6 + p7"
proof -
  define c where "c = p0 + 256 * (p1 + 256 * (p2 + 256 * (p3 + 256 * (p4 + 256 * (p5 + 256 * (p6 + 256 * p7))))))"
  define s where "s = p0 + p1 + p2 + p3 + p4 + p5 + p6 + p7"
  define L where "L = p0 + 256 * ((p0 + p1) + 256 * ((p0 + p1 + p2) + 256 * ((p0 + p1 + p2 + p3)
     + 256 * ((p0 + p1 + p2 + p3 + p4) + 256 * ((p0 + p1 + p2 + p3 + p4 + p5)
     + 256 * (p0 + p1 + p2 + p3 + p4 + p5 + p6))))))"
  define H where "H = (p1 + p2 + p3 + p4 + p5 + p6 + p7) + 256 * ((p2 + p3 + p4 + p5 + p6 + p7)
     + 256 * ((p3 + p4 + p5 + p6 + p7) + 256 * ((p4 + p5 + p6 + p7) + 256 * ((p5 + p6 + p7)
     + 256 * ((p6 + p7) + 256 * p7)))))"
  have e: "c * 0x0101010101010101 = (L + 2 ^ 56 * s) + 2 ^ 64 * H"
    unfolding c_def L_def H_def s_def by (simp add: algebra_simps)
  have L: "L < 2 ^ 56"
    unfolding L_def using assms by simp
  have s8: "s \<le> 64"
    unfolding s_def using assms by simp
  have "L + 2 ^ 56 * s < 2 ^ 64"
    using L s8 by simp
  then have "(c * 0x0101010101010101) mod 2 ^ 64 = L + 2 ^ 56 * s"
    unfolding e by simp
  moreover have "(L + 2 ^ 56 * s) div 2 ^ 56 = s"
    using L by simp
  ultimately show ?thesis
    unfolding c_def s_def by simp
qed

lemma fld_Suc8:
  "fld w (Suc (Suc (Suc (Suc (Suc (Suc (Suc (Suc 0)))))))) n =
     pc w n + 2 ^ w * (pc w (n div 2 ^ w) + 2 ^ w * (pc w (n div 2 ^ w div 2 ^ w)
     + 2 ^ w * (pc w (n div 2 ^ w div 2 ^ w div 2 ^ w)
     + 2 ^ w * (pc w (n div 2 ^ w div 2 ^ w div 2 ^ w div 2 ^ w)
     + 2 ^ w * (pc w (n div 2 ^ w div 2 ^ w div 2 ^ w div 2 ^ w div 2 ^ w)
     + 2 ^ w * (pc w (n div 2 ^ w div 2 ^ w div 2 ^ w div 2 ^ w div 2 ^ w div 2 ^ w)
     + 2 ^ w * pc w (n div 2 ^ w div 2 ^ w div 2 ^ w div 2 ^ w div 2 ^ w div 2 ^ w div 2 ^ w)))))))"
  by simp

lemma fld8_8:
  "fld 8 8 n = pc 8 n + 256 * (pc 8 (n div 2 ^ 8) + 256 * (pc 8 (n div 2 ^ 16)
     + 256 * (pc 8 (n div 2 ^ 24) + 256 * (pc 8 (n div 2 ^ 32) + 256 * (pc 8 (n div 2 ^ 40)
     + 256 * (pc 8 (n div 2 ^ 48) + 256 * pc 8 (n div 2 ^ 56)))))))"
proof -
  have e8: "(8::nat) = Suc (Suc (Suc (Suc (Suc (Suc (Suc (Suc 0)))))))" by simp
  have "fld 8 8 n = fld 8 (Suc (Suc (Suc (Suc (Suc (Suc (Suc (Suc 0)))))))) n"
    by (rule arg_cong[where f = "\<lambda>k. fld 8 k n"]) (rule e8)
  also note fld_Suc8
  finally show ?thesis
    by (simp add: div_mult2_eq[symmetric])
qed

lemma pc64:
  "pc 64 n = pc 8 n + pc 8 (n div 2 ^ 8) + pc 8 (n div 2 ^ 16) + pc 8 (n div 2 ^ 24)
     + pc 8 (n div 2 ^ 32) + pc 8 (n div 2 ^ 40) + pc 8 (n div 2 ^ 48) + pc 8 (n div 2 ^ 56)"
proof -
  have "pc 64 n = pc 32 n + pc 32 (n div 2 ^ 32)"
    using pc_add[of 32 32 n] by simp
  moreover have "pc 32 m = pc 16 m + pc 16 (m div 2 ^ 16)" for m
    using pc_add[of 16 16 m] by simp
  moreover have "pc 16 m = pc 8 m + pc 8 (m div 2 ^ 8)" for m
    using pc_add[of 8 8 m] by simp
  ultimately show ?thesis
    by (simp add: div_mult2_eq[symmetric])
qed

lemma nat_weight:
  assumes "n < 2 ^ 64"
  shows "(fld 8 8 n * 0x0101010101010101) mod 2 ^ 64 div 2 ^ 56 = pc 64 n"
  unfolding fld8_8 pc64
  by (rule step4) (rule pc_le)+


lemma msk_add: "msk w v (a + b) = msk w v a + 2 ^ (w * a) * msk w v b"
  by (induction a) (simp_all add: algebra_simps power_add)

lemma msk_double: "msk w v (2 * a) = msk w v a + 2 ^ (w * a) * msk w v a"
  using msk_add[of w v a a] by (simp add: mult_2)

lemma msk_vals:
  "msk 2 (Suc 0) 32 = 0x5555555555555555"
  "msk 4 3 16 = 0x3333333333333333"
  "msk 8 15 8 = 0x0f0f0f0f0f0f0f0f"
proof -
  have one: "msk w v 1 = v" for w v by simp
  have "msk 2 1 2 = 5" using msk_double[of 2 1 1] by (simp only: one) simp
  then have "msk 2 1 4 = 0x55" using msk_double[of 2 1 2] by simp
  then have "msk 2 1 8 = 0x5555" using msk_double[of 2 1 4] by simp
  then have "msk 2 1 16 = 0x55555555" using msk_double[of 2 1 8] by simp
  then show "msk 2 (Suc 0) 32 = 0x5555555555555555" using msk_double[of 2 1 16] by simp
  have "msk 4 3 2 = 0x33" using msk_double[of 4 3 1] by (simp only: one) simp
  then have "msk 4 3 4 = 0x3333" using msk_double[of 4 3 2] by simp
  then have "msk 4 3 8 = 0x33333333" using msk_double[of 4 3 4] by simp
  then show "msk 4 3 16 = 0x3333333333333333" using msk_double[of 4 3 8] by simp
  have "msk 8 15 2 = 0x0f0f" using msk_double[of 8 15 1] by (simp only: one) simp
  then have "msk 8 15 4 = 0x0f0f0f0f" using msk_double[of 8 15 2] by simp
  then show "msk 8 15 8 = 0x0f0f0f0f0f0f0f0f" using msk_double[of 8 15 4] by simp
qed

lemma pc_filter: "pc k n = length (filter (bit n) [0..<k])"
proof (induction k arbitrary: n)
  case 0 show ?case by simp
next
  case (Suc k)
  have "[0..<Suc k] = 0 # map Suc [0..<k]"
    by (simp add: upt_conv_Cons map_Suc_upt del: upt_Suc)
  then have "length (filter (bit n) [0..<Suc k]) =
        (if bit n 0 then 1 else 0) + length (filter (\<lambda>i. bit n (Suc i)) [0..<k])"
    by (simp add: filter_map comp_def del: upt_Suc)
  also have "(\<lambda>i. bit n (Suc i)) = bit (n div 2)"
    by (simp add: bit_Suc)
  also have "(if bit n 0 then 1 else 0) = n mod 2"
    by (simp add: bit_0 mod_2_eq_odd)
  finally show ?case using Suc[of "n div 2"] by simp
qed

lemma popcount_pc: "popcount x = pc 64 (unat x)"
  unfolding popcount_def pc_filter by (simp add: bit_unsigned_iff cong: filter_cong)


lemma unat_M:
  "unat (0x5555555555555555 :: 64 word) = msk 2 (Suc 0) 32"
  "unat (0x3333333333333333 :: 64 word) = msk 4 3 16"
  "unat (0x0f0f0f0f0f0f0f0f :: 64 word) = msk 8 15 8"
  by (simp_all add: msk_vals)

lemma unat_drop: "unat (drop_bit k w) = unat w div 2 ^ k" for w :: "64 word"
proof -
  have "unat (drop_bit k w) = drop_bit k (unat w)" by (rule unat_drop_bit_eq)
  also have "\<dots> = unat w div 2 ^ k" by (rule drop_bit_eq_div)
  finally show ?thesis .
qed

lemma sint_small: "unat w < 2 ^ 63 \<Longrightarrow> sint w = int (unat w)" for w :: "64 word"
proof -
  assume a: "unat w < 2 ^ 63"
  have "int (unat w) < int (2 ^ 63)" using a by (simp only: of_nat_less_iff)
  then have lt: "int (unat w) < 2 ^ 63" by simp
  have ge: "- (2 ^ 63) \<le> int (unat w)" by (rule order_trans[of _ 0]) simp_all
  have "signed_take_bit 63 (int (unat w)) = int (unat w)"
    using ge lt by (rule signed_take_bit_int_eq_self)
  then show ?thesis
    by (simp add: sint_uint)
qed

lemma weight_eq_popcount: "weight x = int (popcount x)"
proof -
  define n where "n = unat x"
  have n: "n < 4 ^ 32" unfolding n_def using unsigned_less[of x] by simp
  define x1 where "x1 = x - (drop_bit 1 x AND 0x5555555555555555)"
  define x2 where "x2 = (x1 AND 0x3333333333333333) + (drop_bit 2 x1 AND 0x3333333333333333)"
  define x3 where "x3 = (x2 + drop_bit 4 x2) AND 0x0f0f0f0f0f0f0f0f"
  have t1: "unat (drop_bit 1 x AND 0x5555555555555555) = (n div 2) AND msk 2 (Suc 0) 32"
    unfolding n_def by (simp add: unsigned_and_eq unat_drop_bit_eq msk_vals drop_bit_eq_div unat_div)
  have le: "drop_bit 1 x AND 0x5555555555555555 \<le> x"
    unfolding word_le_nat_alt t1 n_def[symmetric]
    using and_le_left[of "n div 2" "msk 2 (Suc 0) 32"] by linarith
  have "unat x1 = unat x - unat (drop_bit 1 x AND 0x5555555555555555)"
    unfolding x1_def by (rule unat_sub[OF le])
  also have "\<dots> = n - ((n div 2) AND msk 2 (Suc 0) 32)"
    by (simp only: t1 n_def)
  also have "\<dots> = fld 2 32 n"
    using step1[OF n] by simp
  finally have u1: "unat x1 = fld 2 (2 * 16) n" by simp
  have u2: "unat x2 = fld 4 (2 * 8) n"
  proof -
    have "unat (x1 AND 0x3333333333333333) + unat (drop_bit 2 x1 AND 0x3333333333333333)
          = fld 4 16 n"
      using step2[of 16 n]
      by (simp only: unsigned_and_eq unat_drop unat_M u1) simp
    moreover have "fld 4 16 n < 2 ^ 64"
      using fld_less[of 4 16 n] by simp
    ultimately show ?thesis
      unfolding x2_def using unat_add_lem[of "x1 AND 0x3333333333333333" "drop_bit 2 x1 AND 0x3333333333333333"]
      by simp
  qed
  have u3: "unat x3 = fld 8 8 n"
  proof -
    have "fld 4 16 n + fld 4 16 n div 16 < 2 ^ 64"
      using fld4_bound[of 16 n] by simp
    then have "unat (x2 + drop_bit 4 x2) = fld 4 (2 * 8) n + fld 4 (2 * 8) n div 16"
      using unat_add_lem[of x2 "drop_bit 4 x2"] 
      by (simp only: unat_drop u2) simp
    then show ?thesis
      unfolding x3_def using step3[of 8 n]
      by (simp only: unsigned_and_eq unat_M)
  qed
  have "unat (drop_bit 56 (x3 * 0x0101010101010101)) = pc 64 n"
    using nat_weight[of n] n
    by (simp only: unat_drop unat_word_ariths u3) simp
  moreover have "pc 64 n < 2 ^ 63"
    using pc_le[of 64 n] by simp
  ultimately have "sint (drop_bit 56 (x3 * 0x0101010101010101)) = int (pc 64 n)"
    using sint_small[of "drop_bit 56 (x3 * 0x0101010101010101)"] by simp
  then show ?thesis
    unfolding weight_def Let_def popcount_pc x3_def x2_def x1_def n_def .
qed

subsection \<open>The cursor on laid-out bytes\<close>

lemma length_le_bytes [simp]: "length (le_bytes n w) = n"
  by (induction n arbitrary: w) simp_all

lemma le_word_le_bytes:
  "le_word (le_bytes n w) = (take_bit (8 * n) w :: 'a::len word)" for w :: "'a::len word"
proof (induction n arbitrary: w)
  case 0
  show ?case by simp
next
  case (Suc n)
  show ?case
    by (rule bit_eqI) (auto simp: Suc bit_simps)
qed

lemma le_word_enc [simp]:
  "le_word (enc_u64 v) = v" "le_word (enc_u32 u) = u"
  by (simp_all add: enc_u64_def enc_u32_def le_word_le_bytes take_bit_word_eq_self)

lemma length_enc [simp]: "length (enc_u64 v) = 8" "length (enc_u32 u) = 4"
  by (simp_all add: enc_u64_def enc_u32_def)

lemma u64_enc [simp]: "u64 (enc_u64 v @ rest) = Some (v, rest)"
  by (simp add: u64_def Uint64_def)

lemma u32_enc [simp]: "u32 (enc_u32 v @ rest) = Some (v, rest)"
  by (simp add: u32_def Uint32_def)

lemma i32_enc [simp]: "i32 (enc_u32 v @ rest) = Some (v, rest)"
  by (simp add: i32_def Uint32_def)

lemma u64If_enc [simp]:
  "u64If c (enc_if c (enc_u64 v) @ rest) = Some (if c then v else 0, rest)"
  by (simp add: u64If_def enc_if_def)

lemma u32If_enc [simp]:
  "u32If c (enc_if c (enc_u32 v) @ rest) = Some (if c then v else 0, rest)"
  by (simp add: u32If_def enc_if_def)

lemma i32If_enc [simp]:
  "i32If c (enc_if c (enc_u32 v) @ rest) = Some (if c then v else 0, rest)"
  by (simp add: i32If_def enc_if_def)

lemma read_u64s_enc [simp]:
  "read_u64s (length vs) (enc_u64s vs @ rest) = Some (vs, rest)"
  by (induction vs) (simp_all add: enc_u64s_def)

lemma length_enc_u64s [simp]: "length (enc_u64s vs) = 8 * length vs"
  by (induction vs) (simp_all add: enc_u64s_def)

lemma read_u64s_eq:
  "read_u64s n bd = (if length bd < 8 * n then None else Some (u64s_at n bd, drop (8 * n) bd))"
proof (induction n arbitrary: bd)
  case 0
  show ?case by (simp add: u64s_at_def)
next
  case (Suc n)
  have u: "[0..<Suc n] = 0 # map Suc [0..<n]"
    by (simp add: upt_conv_Cons map_Suc_upt del: upt_Suc)
  have "u64s_at (Suc n) bd = le_word (take 8 bd) # u64s_at n (drop 8 bd)"
    unfolding u64s_at_def u by (simp add: comp_def add.commute)
  then show ?case
    by (auto simp: Suc u64_def Uint64_def add.commute)
qed

subsection \<open>Slices\<close>


lemma resize_Some:
  "0 \<le> n \<Longrightarrow> \<exists>s'. resize z s n = Some s' \<and> len s' = nat n \<and> cap s' \<ge> nat n \<and> s' \<noteq> Nil_slice"
  by (cases s) (auto simp: resize_def make_slice_def len_def)

lemma resize_neg: "n < 0 \<Longrightarrow> resize z s n = None"
  by (cases s) (auto simp: resize_def make_slice_def)

lemma resize_len: "resize z s n = Some s' \<Longrightarrow> 0 \<le> n \<and> len s' = nat n \<and> s' \<noteq> Nil_slice"
  by (cases s) (auto simp: resize_def make_slice_def len_def split: if_splits)

lemma elems_overwrite:
  "s \<noteq> Nil_slice \<Longrightarrow> length vs = len s \<Longrightarrow> elems (overwrite s vs) = vs"
  by (cases s) (auto simp: len_def)

lemma len_overwrite:
  "length vs = len s \<Longrightarrow> len (overwrite s vs) = len s"
  by (cases s) (auto simp: len_def)


subsection \<open>User registers\<close>

lemma u64s_eq:
  "s \<noteq> Nil_slice \<Longrightarrow> u64s s bd =
     (if length bd < 8 * len s then None
      else Some (overwrite s (u64s_at (len s) bd), drop (8 * len s) bd))"
  by (simp add: u64s_def read_u64s_eq)

lemma length_u64s_at [simp]: "length (u64s_at n bd) = n"
  by (simp add: u64s_at_def)

lemma regs_count:
  assumes "t AND SampleFormatRegsUser S \<noteq> 0"
    and "weight (SampleRegsUser ea) = int p"
  shows "(length bd < 8 + 8 * p \<longrightarrow> parseSample_regs S t ea bd obj = None)
    \<and> (8 + 8 * p \<le> length bd \<longrightarrow>
         (\<exists>regs. parseSample_regs S t ea bd obj
                   = Some (drop (8 + 8 * p) bd, obj\<lparr>RegsABI := le_word (take 8 bd), Regs := regs\<rparr>)
            \<and> elems regs = u64s_at p (drop 8 bd)))"
proof -
  obtain s' where s': "resize 0 (Regs obj) (int p) = Some s'" "len s' = p" "s' \<noteq> Nil_slice"
    using resize_Some[of "int p" 0 "Regs obj"] by auto
  have u: "u64s s' bd' =
     (if length bd' < 8 * p then None
      else Some (overwrite s' (u64s_at p bd'), drop (8 * p) bd'))" for bd'
    using u64s_eq[OF s'(3), of bd'] s'(2) by simp
  have e: "elems (overwrite s' (u64s_at p bd')) = u64s_at p bd'" for bd'
    using elems_overwrite[OF s'(3), of "u64s_at p bd'"] s'(2) by simp
  show ?thesis
    using assms(1) e
    by (auto simp: parseSample_regs_def assms(2) s'(1) u u64_def Uint64_def Let_def add.commute)
qed


text \<open>
  Claim C6. \<^verbatim>\<open>weight x\<close> is the number of set bits of \<open>x\<close>, for every 64-bit \<open>x\<close>.
  With the user-registers bit of the sample format set, the register block of
  \<^verbatim>\<open>parseSample\<close> reads one 64-bit ABI tag and then exactly
  \<open>popcount (SampleRegsUser eventAttr)\<close> 64-bit values, whatever the stream holds: it
  panics when fewer than \<open>8 + 8 * popcount\<close> bytes are left, and otherwise consumes
  exactly that many, the tag first and the register values after it in order.
\<close>

theorem regs_by_popcount:
  "weight x = int (popcount x)
   \<and> (t AND SampleFormatRegsUser S \<noteq> 0 \<longrightarrow>
        (length bd < 8 + 8 * popcount (SampleRegsUser ea) \<longrightarrow>
           parseSample_regs S t ea bd obj = None)
      \<and> (8 + 8 * popcount (SampleRegsUser ea) \<le> length bd \<longrightarrow>
           (\<exists>regs. parseSample_regs S t ea bd obj
                 = Some (drop (8 + 8 * popcount (SampleRegsUser ea)) bd,
                         obj\<lparr>RegsABI := le_word (take 8 bd), Regs := regs\<rparr>)
              \<and> elems regs = u64s_at (popcount (SampleRegsUser ea)) (drop 8 bd))))"
  using regs_count[of t S ea "popcount (SampleRegsUser ea)" bd obj]
  by (simp add: weight_eq_popcount)

text \<open>The mask \<open>0x25\<close> has bits 0, 2 and 5 set: three registers are read.\<close>

theorem regs_by_popcount_witness:
  "weight 0x25 = 3
   \<and> (\<exists>regs. parseSample_regs (sfc abi) 0x1000 ex_regs_attr ex_regs_payload zero_RecordSample
          = Some ([9], zero_RecordSample\<lparr>RegsABI := 2, Regs := regs\<rparr>)
        \<and> elems regs = [0x11, 0x22, 0x33])"
proof -
  have w: "weight 0x25 = 3"
    by (simp add: weight_def)
  have p: "popcount 0x25 = 3"
    using regs_by_popcount[of "0x25" 0 "sfc abi" "[]" ex_regs_attr zero_RecordSample] w by simp
  have u: "u64s_at 3 (drop 8 ex_regs_payload) = [0x11, 0x22, 0x33]"
    by (simp add: u64s_at_def ex_regs_payload_def numeral_3_eq_3)
  show ?thesis
    using regs_by_popcount[of "0x25" "0x1000" "sfc abi" ex_regs_payload ex_regs_attr zero_RecordSample] 
    by (simp add: p u w abi_def ex_regs_attr_def) (simp add: ex_regs_payload_def)
qed



subsection \<open>The read-format block\<close>

lemma resize_shape:
  "0 \<le> n \<Longrightarrow> \<exists>a. resize z s n = Some (Slice a (nat n)) \<and> nat n \<le> length a"
  by (cases s) (auto simp: resize_def make_slice_def)

lemma sint_of_nat_63: "n < 2 ^ 63 \<Longrightarrow> sint (of_nat n :: 64 word) = int n"
proof -
  assume a: "n < 2 ^ 63"
  then have "n < 2 ^ 64" by simp
  then have u: "unat (of_nat n :: 64 word) = n"
    by (simp add: unat_of_nat take_bit_nat_eq_self)
  show ?thesis
    using sint_small[of "of_nat n :: 64 word"] a u by simp
qed

lemma getAttr_fst: "fst (getAttr r a) = idToAttr (rs_f r) a"
  by (cases "idToAttr (rs_f r) a") (simp_all add: getAttr_def)

lemma getAttr_rs_f [simp]: "rs_f (snd (getAttr r a)) = rs_f r"
  by (cases "idToAttr (rs_f r) a") (simp_all add: getAttr_def)

lemma readAttrIf_enc:
  "readAttrIf c r (enc_if c (enc_u64 a) @ rest)
     = Some (if c then idToAttr (rs_f r) a else None, if c then snd (getAttr r a) else r, rest)"
  by (cases "getAttr r a") (auto simp: readAttrIf_def enc_if_def getAttr_fst[symmetric])

lemma fold_getAttr_rs_f: "rs_f (fold (\<lambda>e r. snd (getAttr r (w_ID e))) es r) = rs_f r"
  by (induction es arbitrary: r) simp_all

lemma lookups_rs_f [simp]: "rs_f (lookups c r es) = rs_f r"
  by (simp add: lookups_def fold_getAttr_rs_f)

lemma lookups_Cons:
  "lookups c r (e # es) = lookups c (if c then snd (getAttr r (w_ID e)) else r) es"
  by (simp add: lookups_def)

lemma readGroupEntry_layout:
  "i < m \<Longrightarrow> i < length a \<Longrightarrow>
   readGroupEntry R f i (r, layout_group_entry R f e @ rest, Slice a m)
     = Some (if f AND ReadFormatID R \<noteq> 0 then snd (getAttr r (w_ID e)) else r, rest,
             Slice (a[i := decoded_read R f (idToAttr (rs_f r)) e]) m)"
  by (simp add: readGroupEntry_def layout_group_entry_def readAttrIf_enc decoded_read_def)

lemma group_loop:
  "k + length es \<le> m \<Longrightarrow> m \<le> length a \<Longrightarrow>
   for_range [k..<k + length es] (readGroupEntry R f)
       (r, concat (map (layout_group_entry R f) es) @ rest, Slice a m)
     = Some (lookups (f AND ReadFormatID R \<noteq> 0) r es, rest,
             Slice (take k a @ map (decoded_read R f (idToAttr (rs_f r))) es
                    @ drop (k + length es) a) m)"
proof (induction es arbitrary: k a r)
  case Nil
  then show ?case by (simp add: lookups_def)
next
  case (Cons e es)
  have u: "[k..<k + length (e # es)] = k # [Suc k..<Suc k + length es]"
    by (simp add: upt_conv_Cons del: upt_Suc)
  let ?d = "decoded_read R f (idToAttr (rs_f r)) e"
  let ?r1 = "if f AND ReadFormatID R \<noteq> 0 then snd (getAttr r (w_ID e)) else r"
  have k: "k < m" "k < length a" using Cons.prems by simp_all
  have f1: "rs_f ?r1 = rs_f r" by simp
  have t: "take (Suc k) (a[k := ?d]) = take k a @ [?d]"
    using k(2) by (simp add: take_Suc_conv_app_nth)
  have d: "drop (Suc k + length es) (a[k := ?d]) = drop (Suc k + length es) a"
    by simp
  have "for_range [k..<k + length (e # es)] (readGroupEntry R f)
       (r, concat (map (layout_group_entry R f) (e # es)) @ rest, Slice a m)
     = for_range [Suc k..<Suc k + length es] (readGroupEntry R f)
       (?r1, concat (map (layout_group_entry R f) es) @ rest, Slice (a[k := ?d]) m)"
    unfolding u using readGroupEntry_layout[OF k, of R f r e] by simp
  also have "\<dots> = Some (lookups (f AND ReadFormatID R \<noteq> 0) ?r1 es, rest,
             Slice (take (Suc k) (a[k := ?d]) @ map (decoded_read R f (idToAttr (rs_f ?r1))) es
                    @ drop (Suc k + length es) (a[k := ?d])) m)"
    using Cons.prems by (intro Cons.IH) simp_all
  finally show ?case
    unfolding t d f1 by (simp add: lookups_Cons)
qed

lemma parseReadFormat_group:
  assumes "f AND ReadFormatGroup R \<noteq> 0" and "length es < 2 ^ 63"
  shows "parseReadFormat R r (layout_group R f es @ rest) f out
     = Some (lookups (f AND ReadFormatID R \<noteq> 0) r es, rest,
             fill zero_SampleRead out (map (decoded_read R f (idToAttr (rs_f r))) es))"
proof -
  obtain a where a: "resize zero_SampleRead out (int (length es)) = Some (Slice a (length es))"
      "length es \<le> length a"
    using resize_shape[of "int (length es)" zero_SampleRead out] by auto
  have l: "len (Slice a (length es)) = length es"
    using a(2) by (simp add: len_def)
  have "for_range [0..<0 + length es] (readGroupEntry R f)
       (r, concat (map (layout_group_entry R f) es) @ rest, Slice a (length es))
     = Some (lookups (f AND ReadFormatID R \<noteq> 0) r es, rest,
             Slice (take 0 a @ map (decoded_read R f (idToAttr (rs_f r))) es
                    @ drop (0 + length es) a) (length es))"
    using a(2) by (intro group_loop) simp_all
  then show ?thesis
    using assms
    by (simp add: parseReadFormat_def layout_group_def sint_of_nat_63 a(1) l fill_def)
qed

lemma parseReadFormat_single:
  assumes "f AND ReadFormatGroup R = 0"
  shows "parseReadFormat R r (layout_single R f e @ rest) f out
     = Some (lookups (f AND ReadFormatID R \<noteq> 0) r [e], rest,
             fill zero_SampleRead out [decoded_read R f (idToAttr (rs_f r)) e])"
proof -
  obtain a where a: "resize zero_SampleRead out 1 = Some (Slice a 1)" "1 \<le> length a"
    using resize_shape[of 1 zero_SampleRead out] by auto
  have u: "a[0 := x] = x # drop 1 a" for x
    using a(2) by (cases a) simp_all
  show ?thesis
    using assms a(2)
    by (cases a)
      (simp_all add: parseReadFormat_def layout_single_def readAttrIf_enc a(1) fill_def
        decoded_read_def lookups_def u)
qed

lemma elems_fill: "elems (fill z s vs) = vs"
proof -
  obtain a where a: "resize z s (int (length vs)) = Some (Slice a (length vs))"
      "length vs \<le> length a"
    using resize_shape[of "int (length vs)" z s] by auto
  show ?thesis by (simp add: fill_def a)
qed


lemma le_bytes_8:
  "le_bytes 8 w = [ucast w, ucast (drop_bit 8 w), ucast (drop_bit 16 w), ucast (drop_bit 24 w),
     ucast (drop_bit 32 w), ucast (drop_bit 40 w), ucast (drop_bit 48 w), ucast (drop_bit 56 w)]"
proof -
  have e8: "(8::nat) = Suc (Suc (Suc (Suc (Suc (Suc (Suc (Suc 0)))))))" by simp
  show ?thesis
    by (subst e8) (simp add: drop_bit_drop_bit del: One_nat_def)
qed

lemma le_bytes_4:
  "le_bytes 4 w = [ucast w, ucast (drop_bit 8 w), ucast (drop_bit 16 w), ucast (drop_bit 24 w)]"
proof -
  have e4: "(4::nat) = Suc (Suc (Suc (Suc 0)))" by simp
  show ?thesis
    by (subst e4) (simp add: drop_bit_drop_bit del: One_nat_def)
qed

text \<open>
  Claim C3. Without the group bit \<^verbatim>\<open>parseReadFormat\<close> decodes exactly one entry from
  the layout value, time-enabled (conditional), time-running (conditional), attribute
  id (conditional). With the group bit it reads a leading count and then that many
  entries, each from the layout time-enabled (conditional), time-running (conditional),
  value, attribute id (conditional). In both cases the cursor ends right after the
  block, the entries of the resulting slice are the decoded entries in the order of
  the stream, whatever the slice held before, and the attribute of an entry is the
  table's entry for its id.
\<close>

theorem parseReadFormat_layout:
  "(f AND ReadFormatGroup R = 0 \<longrightarrow>
      parseReadFormat R r (layout_single R f e @ rest) f out
        = Some (lookups (f AND ReadFormatID R \<noteq> 0) r [e], rest,
                fill zero_SampleRead out [decoded_read R f (idToAttr (rs_f r)) e]))
   \<and> (f AND ReadFormatGroup R \<noteq> 0 \<longrightarrow> length es < 2 ^ 63 \<longrightarrow>
      parseReadFormat R r (layout_group R f es @ rest) f out
        = Some (lookups (f AND ReadFormatID R \<noteq> 0) r es, rest,
                fill zero_SampleRead out (map (decoded_read R f (idToAttr (rs_f r))) es)))
   \<and> elems (fill zero_SampleRead out (map (decoded_read R f (idToAttr (rs_f r))) es))
       = map (decoded_read R f (idToAttr (rs_f r))) es
   \<and> rs_f (lookups (f AND ReadFormatID R \<noteq> 0) r es) = rs_f r"
  by (simp add: parseReadFormat_single parseReadFormat_group elems_fill)

text \<open>A grouped block of three entries decodes to the same three entries, in order.\<close>

theorem parseReadFormat_layout_witness:
  "\<exists>r' out'. parseReadFormat (rfc abi) (new_Records ex_file []) ex_group_payload 9 Nil_slice
       = Some (r', [], out')
     \<and> elems out' = [\<lparr>rd_Value = 10, rd_TimeEnabled = 1, rd_TimeRunning = 0, rd_EventAttr = None\<rparr>,
                      \<lparr>rd_Value = 20, rd_TimeEnabled = 2, rd_TimeRunning = 0, rd_EventAttr = None\<rparr>,
                      \<lparr>rd_Value = 30, rd_TimeEnabled = 3, rd_TimeRunning = 0, rd_EventAttr = None\<rparr>]"
proof -
  have l: "layout_group (rfc abi) 9 ex_entries = ex_group_payload"
    by (simp add: layout_group_def layout_group_entry_def ex_entries_def ex_group_payload_def
        abi_def enc_if_def enc_u64_def le_bytes_8)
  have d: "map (decoded_read (rfc abi) 9 tbl) ex_entries
      = [\<lparr>rd_Value = 10, rd_TimeEnabled = 1, rd_TimeRunning = 0, rd_EventAttr = None\<rparr>,
         \<lparr>rd_Value = 20, rd_TimeEnabled = 2, rd_TimeRunning = 0, rd_EventAttr = None\<rparr>,
         \<lparr>rd_Value = 30, rd_TimeEnabled = 3, rd_TimeRunning = 0, rd_EventAttr = None\<rparr>]" for tbl
    by (simp add: decoded_read_def ex_entries_def abi_def)
  have g: "(9 :: 64 word) AND ReadFormatGroup (rfc abi) \<noteq> 0" "length ex_entries < 2 ^ 63"
    by (simp_all add: abi_def ex_entries_def)
  show ?thesis
    using parseReadFormat_layout[of 9 "rfc abi" "new_Records ex_file []" "hd ex_entries" "[]" Nil_slice ex_entries] g
    by (simp add: l d)
qed



subsection \<open>The blocks of parseSample on their layouts\<close>

lemma scalars_layout:
  "parseSample_scalars S t (layout_scalars S t w @ rest) obj
     = Some (rest, obj\<lparr>
         IP := (if t AND SampleFormatIP S \<noteq> 0 then w_ip w else 0),
         PID := sint (if t AND SampleFormatTID S \<noteq> 0 then w_pid w else 0),
         TID := sint (if t AND SampleFormatTID S \<noteq> 0 then w_tid w else 0),
         Time := (if t AND SampleFormatTime S \<noteq> 0 then w_time w else 0),
         Addr := (if t AND SampleFormatAddr S \<noteq> 0 then w_addr w else 0),
         StreamID := (if t AND SampleFormatStreamID S \<noteq> 0 then w_stream_id w else 0),
         CPU := (if t AND SampleFormatCPU S \<noteq> 0 then w_cpu w else 0),
         Res := (if t AND SampleFormatCPU S \<noteq> 0 then w_res w else 0),
         Period := (if t AND SampleFormatPeriod S \<noteq> 0 then w_period w else 0)\<rparr>)"
  by (simp add: parseSample_scalars_def layout_scalars_def)

lemma read_layout:
  assumes "c \<longrightarrow> wf_read (rfc K) f es"
  shows "c = (t AND SampleFormatRead (sfc K) \<noteq> 0) \<Longrightarrow> f = ReadFormat ea \<Longrightarrow>
   parseSample_read K t ea r (enc_if c (layout_read (rfc K) f es) @ rest) obj
     = Some (if c then lookups (f AND ReadFormatID (rfc K) \<noteq> 0) r es else r, rest,
             obj\<lparr>SampleRead := (if c
                then fill zero_SampleRead (SampleRead obj)
                       (map (decoded_read (rfc K) f (idToAttr (rs_f r))) es)
                else SampleRead obj)\<rparr>)"
proof (cases c)
  case False
  then show "c = (t AND SampleFormatRead (sfc K) \<noteq> 0) \<Longrightarrow> f = ReadFormat ea \<Longrightarrow> ?thesis"
    by (simp add: parseSample_read_def enc_if_def)
next
  case True
  assume c: "c = (t AND SampleFormatRead (sfc K) \<noteq> 0)" and f: "f = ReadFormat ea"
  show ?thesis
  proof (cases "f AND ReadFormatGroup (rfc K) = 0")
    case g: True
    then have "length es = 1" using assms True by (simp add: wf_read_def)
    then have es: "es = [hd es]" by (cases es) simp_all
    have "parseReadFormat (rfc K) r (layout_single (rfc K) f (hd es) @ rest) f (SampleRead obj)
       = Some (lookups (f AND ReadFormatID (rfc K) \<noteq> 0) r [hd es], rest,
               fill zero_SampleRead (SampleRead obj)
                 [decoded_read (rfc K) f (idToAttr (rs_f r)) (hd es)])"
      using g by (rule parseReadFormat_single)
    then show ?thesis
      using True c f g es
      by (simp add: parseSample_read_def enc_if_def layout_read_def) (metis list.simps(8,9))
  next
    case g: False
    then have "length es < 2 ^ 63" using assms True by (simp add: wf_read_def)
    then show ?thesis
      using True c f g
      by (simp add: parseSample_read_def enc_if_def layout_read_def parseReadFormat_group)
  qed
qed

lemma u64s_enc:
  "n \<le> length a \<Longrightarrow> length vs = n \<Longrightarrow>
   u64s (Slice a n) (enc_u64s vs @ rest) = Some (overwrite (Slice a n) vs, rest)"
  using read_u64s_enc[of vs rest] by (simp add: u64s_def len_def)

lemma callchain_layout:
  assumes "c \<longrightarrow> length cc < 2 ^ 63" and "c = (t AND SampleFormatCallchain S \<noteq> 0)"
  shows "parseSample_callchain S t (enc_if c (layout_callchain cc) @ rest) obj
     = Some (rest, obj\<lparr>Callchain := (if c then fill 0 (Callchain obj) cc else Nil_slice)\<rparr>)"
proof (cases c)
  case False
  then show ?thesis using assms(2) by (simp add: parseSample_callchain_def enc_if_def)
next
  case True
  obtain a where a: "resize 0 (Callchain obj) (int (length cc)) = Some (Slice a (length cc))"
      "length cc \<le> length a"
    using resize_shape[of "int (length cc)" 0 "Callchain obj"] by auto
  show ?thesis
    using True assms
    by (simp add: parseSample_callchain_def enc_if_def layout_callchain_def sint_of_nat_63
        a u64s_enc[OF a(2)] fill_def del: overwrite.simps)
qed

lemma uint_of_nat_32: "n < 2 ^ 32 \<Longrightarrow> uint (of_nat n :: 32 word) = int n"
  by (simp add: uint_nat unat_of_nat take_bit_nat_eq_self)

lemma raw_layout:
  assumes "c \<longrightarrow> length raw < 2 ^ 32" and "c = (t AND SampleFormatRaw S \<noteq> 0)"
  shows "parseSample_raw S t (enc_if c (layout_raw raw) @ rest) = Some rest"
proof (cases c)
  case False
  then show ?thesis using assms(2) by (simp add: parseSample_raw_def enc_if_def u32If_def skip_def)
next
  case True
  then have "u32If c (enc_if c (enc_u32 (of_nat (length raw))) @ raw @ rest)
      = Some (of_nat (length raw), raw @ rest)"
    by (simp only: u32If_enc) simp
  then show ?thesis
    using True assms
    by (simp add: parseSample_raw_def enc_if_def layout_raw_def uint_of_nat_32 skip_def)
qed


lemma readBranch_layout:
  "i < m \<Longrightarrow> i < length a \<Longrightarrow>
   readBranch i (layout_branch b @ rest, Slice a m) = Some (rest, Slice (a[i := b]) m)"
  by (cases b) (simp add: readBranch_def layout_branch_def)

lemma branch_loop:
  "k + length bs \<le> m \<Longrightarrow> m \<le> length a \<Longrightarrow>
   for_range [k..<k + length bs] readBranch (concat (map layout_branch bs) @ rest, Slice a m)
     = Some (rest, Slice (take k a @ bs @ drop (k + length bs) a) m)"
proof (induction bs arbitrary: k a)
  case Nil
  then show ?case by simp
next
  case (Cons b bs)
  have u: "[k..<k + length (b # bs)] = k # [Suc k..<Suc k + length bs]"
    by (simp add: upt_conv_Cons del: upt_Suc)
  have k: "k < m" "k < length a" using Cons.prems by simp_all
  have t: "take (Suc k) (a[k := b]) = take k a @ [b]"
    using k(2) by (simp add: take_Suc_conv_app_nth)
  have d: "drop (Suc k + length bs) (a[k := b]) = drop (Suc k + length bs) a"
    by simp
  have "for_range [k..<k + length (b # bs)] readBranch
          (concat (map layout_branch (b # bs)) @ rest, Slice a m)
     = for_range [Suc k..<Suc k + length bs] readBranch
          (concat (map layout_branch bs) @ rest, Slice (a[k := b]) m)"
    unfolding u using readBranch_layout[OF k, of b] by simp
  also have "\<dots> = Some (rest, Slice (take (Suc k) (a[k := b]) @ bs
                    @ drop (Suc k + length bs) (a[k := b])) m)"
    using Cons.prems by (intro Cons.IH) simp_all
  finally show ?case
    unfolding t d by simp
qed

lemma branch_layout:
  assumes "c \<longrightarrow> length bs < 2 ^ 63" and "c = (t AND SampleFormatBranchStack S \<noteq> 0)"
  shows "parseSample_branch S t (enc_if c (layout_branches bs) @ rest) obj
     = Some (rest, obj\<lparr>BranchStack := (if c then fill zero_BranchRecord (BranchStack obj) bs
                                          else BranchStack obj)\<rparr>)"
proof (cases c)
  case False
  then show ?thesis using assms(2) by (simp add: parseSample_branch_def enc_if_def)
next
  case True
  obtain a where a: "resize zero_BranchRecord (BranchStack obj) (int (length bs))
        = Some (Slice a (length bs))" "length bs \<le> length a"
    using resize_shape[of "int (length bs)" zero_BranchRecord "BranchStack obj"] by auto
  have l: "len (Slice a (length bs)) = length bs"
    using a(2) by (simp add: len_def)
  have "for_range [0..<0 + length bs] readBranch
          (concat (map layout_branch bs) @ rest, Slice a (length bs))
     = Some (rest, Slice (take 0 a @ bs @ drop (0 + length bs) a) (length bs))"
    using a(2) by (intro branch_loop) simp_all
  then show ?thesis
    using True assms
    by (simp add: parseSample_branch_def enc_if_def layout_branches_def sint_of_nat_63 a(1) l
        fill_def)
qed

lemma regs_layout:
  assumes "c \<longrightarrow> length regs = popcount (SampleRegsUser ea)"
    and "c = (t AND SampleFormatRegsUser S \<noteq> 0)"
  shows "parseSample_regs S t ea (enc_if c (layout_regs tag regs) @ rest) obj
     = Some (rest, obj\<lparr>RegsABI := (if c then tag else RegsABI obj),
                          Regs := (if c then fill 0 (Regs obj) regs else Regs obj)\<rparr>)"
proof (cases c)
  case False
  then show ?thesis using assms(2) by (simp add: parseSample_regs_def enc_if_def)
next
  case True
  then have n: "weight (SampleRegsUser ea) = int (length regs)"
    using assms(1) by (simp add: weight_eq_popcount)
  obtain a where a: "resize 0 (Regs obj) (int (length regs)) = Some (Slice a (length regs))"
      "length regs \<le> length a"
    using resize_shape[of "int (length regs)" 0 "Regs obj"] by auto
  show ?thesis
    using True assms(2)
    by (simp add: parseSample_regs_def enc_if_def layout_regs_def n a u64s_enc[OF a(2)] fill_def
        del: overwrite.simps)
qed

lemma stack_layout:
  assumes "c \<longrightarrow> length st < 2 ^ 63" and "c = (t AND SampleFormatStackUser S \<noteq> 0)"
  shows "parseSample_stack S t (enc_if c (layout_stack st dyn) @ rest) obj
     = Some (rest, obj\<lparr>StackUser := (if c then fill 0 (StackUser obj) st else Nil_slice),
                          StackUserDynSize := (if c then dyn else 0)\<rparr>)"
proof (cases c)
  case False
  then show ?thesis using assms(2) by (simp add: parseSample_stack_def enc_if_def)
next
  case True
  obtain a where a: "resize 0 (StackUser obj) (int (length st)) = Some (Slice a (length st))"
      "length st \<le> length a"
    using resize_shape[of "int (length st)" 0 "StackUser obj"] by auto
  have l: "len (Slice a (length st)) = length st"
    using a(2) by (simp add: len_def)
  show ?thesis
    using True assms
    by (simp add: parseSample_stack_def enc_if_def layout_stack_def sint_of_nat_63 a(1) l
        fill_def bytes_def)
qed

lemma tail_layout:
  "parseSample_tail K t (layout_tail (sfc K) t w @ rest) obj
     = Some (rest, obj\<lparr>
         Weight := (if t AND SampleFormatWeight (sfc K) \<noteq> 0 then w_weight w else 0),
         DataSrc := (if t AND SampleFormatDataSrc (sfc K) \<noteq> 0
                     then decodeDataSrc (dsc K) (w_data_src w) else DataSrc obj),
         Transaction := (if t AND SampleFormatTransaction (sfc K) \<noteq> 0
                         then w_transaction w else 0) AND 0xffffffff,
         AbortCode := ucast (drop_bit 32 (if t AND SampleFormatTransaction (sfc K) \<noteq> 0
                         then w_transaction w else 0))\<rparr>)"
  by (simp add: parseSample_tail_def layout_tail_def enc_if_def u64If_def)


lemma getAttr_Some: "idToAttr (rs_f r) a = Some ea \<Longrightarrow> getAttr r a = (Some ea, r)"
  by (simp add: getAttr_def)

text \<open>
  Claim C2. \<^verbatim>\<open>parseSample\<close> consumes the payload in the fixed order of section 4.5: for
  every sample format and every well-formed payload laid out as \<open>layout_sample\<close> says
  (identifier, instruction pointer, pid, tid, time, address, second identifier, stream
  id, cpu, res, period, read-format block, call chain, raw bytes, branch stack, ABI tag
  and user registers, user stack with its trailing dynamic size, weight, data source,
  transaction word; each present exactly when its bit is set), the decoder returns a
  sample whose fields are the values at these places and leaves the cursor right
  after the payload. A scalar whose bit is clear is zero; the transaction flags are
  the low 32 bits and the abort code the high 32 bits of the transaction word. The
  read-format block, the branch stack, the registers and the data source keep the
  value of the cached record when their bit is clear.
\<close>

theorem parseSample_layout:
  fixes K :: Consts and ea :: EventAttr and w :: SampleWire
  defines "t \<equiv> SampleFormat ea" and "S \<equiv> sfc K"
  assumes "parseSample_attrID (rs_f r) (layout_sample K ea w @ rest) = Some a"
    and "idToAttr (rs_f r) a = Some ea"
    and "wf_sample K ea w"
  shows "\<exists>obj r'. parseSample K r (layout_sample K ea w @ rest) hdr
            = Some (Some (RSample obj), r', rest)
     \<and> recordSample r' = obj \<and> rs_f r' = rs_f r
     \<and> EventAttr obj = Some ea
     \<and> CPUMode obj = Misc hdr AND recordMiscCPUModeMask (mc K)
     \<and> ExactIP obj = (Misc hdr AND recordMiscExactIP (mc K) \<noteq> 0)
     \<and> IP obj = (if t AND SampleFormatIP S \<noteq> 0 then w_ip w else 0)
     \<and> PID obj = (if t AND SampleFormatTID S \<noteq> 0 then sint (w_pid w) else 0)
     \<and> TID obj = (if t AND SampleFormatTID S \<noteq> 0 then sint (w_tid w) else 0)
     \<and> Time obj = (if t AND SampleFormatTime S \<noteq> 0 then w_time w else 0)
     \<and> Addr obj = (if t AND SampleFormatAddr S \<noteq> 0 then w_addr w else 0)
     \<and> StreamID obj = (if t AND SampleFormatStreamID S \<noteq> 0 then w_stream_id w else 0)
     \<and> CPU obj = (if t AND SampleFormatCPU S \<noteq> 0 then w_cpu w else 0)
     \<and> Res obj = (if t AND SampleFormatCPU S \<noteq> 0 then w_res w else 0)
     \<and> Period obj = (if t AND SampleFormatPeriod S \<noteq> 0 then w_period w else 0)
     \<and> elems (SampleRead obj) = (if t AND SampleFormatRead S \<noteq> 0
           then map (decoded_read (rfc K) (ReadFormat ea) (idToAttr (rs_f r))) (w_read w)
           else elems (SampleRead (recordSample r)))
     \<and> elems (Callchain obj) = (if t AND SampleFormatCallchain S \<noteq> 0 then w_callchain w else [])
     \<and> elems (BranchStack obj) = (if t AND SampleFormatBranchStack S \<noteq> 0
           then w_branches w else elems (BranchStack (recordSample r)))
     \<and> RegsABI obj = (if t AND SampleFormatRegsUser S \<noteq> 0
           then w_regs_abi w else RegsABI (recordSample r))
     \<and> elems (Regs obj) = (if t AND SampleFormatRegsUser S \<noteq> 0
           then w_regs w else elems (Regs (recordSample r)))
     \<and> elems (StackUser obj) = (if t AND SampleFormatStackUser S \<noteq> 0 then w_stack w else [])
     \<and> StackUserDynSize obj = (if t AND SampleFormatStackUser S \<noteq> 0 then w_stack_dyn w else 0)
     \<and> Weight obj = (if t AND SampleFormatWeight S \<noteq> 0 then w_weight w else 0)
     \<and> DataSrc obj = (if t AND SampleFormatDataSrc S \<noteq> 0
           then decodeDataSrc (dsc K) (w_data_src w) else DataSrc (recordSample r))
     \<and> Transaction obj = (if t AND SampleFormatTransaction S \<noteq> 0
           then w_transaction w AND 0xffffffff else 0)
     \<and> AbortCode obj = (if t AND SampleFormatTransaction S \<noteq> 0
           then ucast (drop_bit 32 (w_transaction w)) else 0)"
proof -
  have wf: "t AND SampleFormatRead S \<noteq> 0 \<longrightarrow> wf_read (rfc K) (ReadFormat ea) (w_read w)"
    "t AND SampleFormatCallchain S \<noteq> 0 \<longrightarrow> length (w_callchain w) < 2 ^ 63"
    "t AND SampleFormatRaw S \<noteq> 0 \<longrightarrow> length (w_raw w) < 2 ^ 32"
    "t AND SampleFormatBranchStack S \<noteq> 0 \<longrightarrow> length (w_branches w) < 2 ^ 63"
    "t AND SampleFormatRegsUser S \<noteq> 0 \<longrightarrow> length (w_regs w) = popcount (SampleRegsUser ea)"
    "t AND SampleFormatStackUser S \<noteq> 0 \<longrightarrow> length (w_stack w) < 2 ^ 63"
    using assms(5) unfolding wf_sample_def Let_def t_def S_def by simp_all
  define o1 where "o1 = (recordSample r)\<lparr>EventAttr := Some ea,
      CPUMode := Misc hdr AND recordMiscCPUModeMask (mc K),
      ExactIP := (Misc hdr AND recordMiscExactIP (mc K) \<noteq> 0)\<rparr>"
  define o2 where "o2 = o1\<lparr>
         IP := (if t AND SampleFormatIP S \<noteq> 0 then w_ip w else 0),
         PID := sint (if t AND SampleFormatTID S \<noteq> 0 then w_pid w else 0),
         TID := sint (if t AND SampleFormatTID S \<noteq> 0 then w_tid w else 0),
         Time := (if t AND SampleFormatTime S \<noteq> 0 then w_time w else 0),
         Addr := (if t AND SampleFormatAddr S \<noteq> 0 then w_addr w else 0),
         StreamID := (if t AND SampleFormatStreamID S \<noteq> 0 then w_stream_id w else 0),
         CPU := (if t AND SampleFormatCPU S \<noteq> 0 then w_cpu w else 0),
         Res := (if t AND SampleFormatCPU S \<noteq> 0 then w_res w else 0),
         Period := (if t AND SampleFormatPeriod S \<noteq> 0 then w_period w else 0)\<rparr>"
  define o3 where "o3 = o2\<lparr>SampleRead := (if t AND SampleFormatRead S \<noteq> 0
       then fill zero_SampleRead (SampleRead o2)
              (map (decoded_read (rfc K) (ReadFormat ea) (idToAttr (rs_f r))) (w_read w))
       else SampleRead o2)\<rparr>"
  define r3 where "r3 = (if t AND SampleFormatRead S \<noteq> 0
       then lookups (ReadFormat ea AND ReadFormatID (rfc K) \<noteq> 0) r (w_read w) else r)"
  define o4 where "o4 = o3\<lparr>Callchain := (if t AND SampleFormatCallchain S \<noteq> 0
       then fill 0 (Callchain o3) (w_callchain w) else Nil_slice)\<rparr>"
  define o5 where "o5 = o4\<lparr>BranchStack := (if t AND SampleFormatBranchStack S \<noteq> 0
       then fill zero_BranchRecord (BranchStack o4) (w_branches w) else BranchStack o4)\<rparr>"
  define o6 where "o6 = o5\<lparr>
       RegsABI := (if t AND SampleFormatRegsUser S \<noteq> 0 then w_regs_abi w else RegsABI o5),
       Regs := (if t AND SampleFormatRegsUser S \<noteq> 0 then fill 0 (Regs o5) (w_regs w)
                else Regs o5)\<rparr>"
  define o7 where "o7 = o6\<lparr>
       StackUser := (if t AND SampleFormatStackUser S \<noteq> 0 then fill 0 (StackUser o6) (w_stack w)
                     else Nil_slice),
       StackUserDynSize := (if t AND SampleFormatStackUser S \<noteq> 0 then w_stack_dyn w else 0)\<rparr>"
  define o8 where "o8 = o7\<lparr>
         Weight := (if t AND SampleFormatWeight S \<noteq> 0 then w_weight w else 0),
         DataSrc := (if t AND SampleFormatDataSrc S \<noteq> 0
                     then decodeDataSrc (dsc K) (w_data_src w) else DataSrc o7),
         Transaction := (if t AND SampleFormatTransaction S \<noteq> 0
                         then w_transaction w else 0) AND 0xffffffff,
         AbortCode := ucast (drop_bit 32 (if t AND SampleFormatTransaction S \<noteq> 0
                         then w_transaction w else 0))\<rparr>"
  have b2: "parseSample_scalars S t (layout_scalars S t w @ x) o1 = Some (x, o2)" for x
    unfolding o2_def by (rule scalars_layout)
  have b3: "parseSample_read K t ea r
       (enc_if (t AND SampleFormatRead S \<noteq> 0) (layout_read (rfc K) (ReadFormat ea) (w_read w)) @ x) o2
       = Some (r3, x, o3)" for x
    unfolding o3_def r3_def S_def using wf(1) unfolding S_def
    by (intro read_layout) simp_all
  have b4: "parseSample_callchain S t
       (enc_if (t AND SampleFormatCallchain S \<noteq> 0) (layout_callchain (w_callchain w)) @ x) o3
       = Some (x, o4)" for x
    unfolding o4_def using wf(2) by (intro callchain_layout) simp_all
  have b4r: "parseSample_raw S t
       (enc_if (t AND SampleFormatRaw S \<noteq> 0) (layout_raw (w_raw w)) @ x) = Some x" for x
    using wf(3) by (intro raw_layout) simp_all
  have b5: "parseSample_branch S t
       (enc_if (t AND SampleFormatBranchStack S \<noteq> 0) (layout_branches (w_branches w)) @ x) o4
       = Some (x, o5)" for x
    unfolding o5_def using wf(4) by (intro branch_layout) simp_all
  have b6: "parseSample_regs S t ea
       (enc_if (t AND SampleFormatRegsUser S \<noteq> 0) (layout_regs (w_regs_abi w) (w_regs w)) @ x) o5
       = Some (x, o6)" for x
    unfolding o6_def using wf(5) by (intro regs_layout) simp_all
  have b7: "parseSample_stack S t
       (enc_if (t AND SampleFormatStackUser S \<noteq> 0) (layout_stack (w_stack w) (w_stack_dyn w)) @ x) o6
       = Some (x, o7)" for x
    unfolding o7_def using wf(6) by (intro stack_layout) simp_all
  have b8: "parseSample_tail K t (layout_tail S t w @ x) o7 = Some (x, o8)" for x
    unfolding o8_def S_def by (rule tail_layout)
  have eq: "parseSample K r (layout_sample K ea w @ rest) hdr
      = Some (Some (RSample o8), r3\<lparr>recordSample := o8\<rparr>, rest)"
    unfolding parseSample_def layout_sample_def Let_def
    by (simp add: assms(3)[unfolded layout_sample_def Let_def append_assoc] getAttr_Some[OF assms(4)]
        o1_def[symmetric] b2[unfolded S_def t_def] b3[unfolded S_def t_def]
        b4[unfolded S_def t_def] b4r[unfolded S_def t_def] b5[unfolded S_def t_def]
        b6[unfolded S_def t_def] b7[unfolded S_def t_def] b8[unfolded S_def t_def])
  have f3: "rs_f r3 = rs_f r" by (simp add: r3_def)
  show ?thesis
    apply (rule exI[of _ o8])
    apply (rule exI[of _ "r3\<lparr>recordSample := o8\<rparr>"])
    apply (intro conjI)
    apply (simp_all add: eq f3)
    apply (simp_all add: o8_def o7_def o6_def o5_def o4_def o3_def o2_def o1_def elems_fill)
    done
qed


text \<open>
  A payload with identifier, instruction pointer, period and a call chain of two
  addresses.
\<close>

theorem parseSample_layout_witness:
  "\<exists>obj r'. parseSample abi (new_Records ex_file2 []) ex_sample_payload ex_sample_hdr
        = Some (Some (RSample obj), r', [])
     \<and> CPUMode obj = 2 \<and> ExactIP obj
     \<and> IP obj = 0x400000 \<and> PID obj = 0 \<and> TID obj = 0 \<and> Period obj = 1000
     \<and> elems (Callchain obj) = [0xA, 0xB] \<and> elems (StackUser obj) = []
     \<and> Weight obj = 0 \<and> Transaction obj = 0 \<and> AbortCode obj = 0"
proof -
  have l: "layout_sample abi ex_sample_attr ex_sample_wire = ex_sample_payload"
    by (simp add: layout_sample_def layout_scalars_def layout_tail_def layout_callchain_def
        ex_sample_attr_def ex_sample_wire_def ex_sample_payload_def abi_def enc_if_def
        enc_u64_def enc_u64s_def le_bytes_8)
  have h1: "parseSample_attrID (rs_f (new_Records ex_file2 []))
              (layout_sample abi ex_sample_attr ex_sample_wire @ []) = Some 5"
    by (simp add: l) (simp add: parseSample_attrID_def new_Records_def ex_file2_def
        ex_sample_payload_def Uint64_def)
  have h2: "idToAttr (rs_f (new_Records ex_file2 [])) 5 = Some ex_sample_attr"
    by (simp add: new_Records_def ex_file2_def)
  have h3: "wf_sample abi ex_sample_attr ex_sample_wire"
    by (simp add: wf_sample_def ex_sample_attr_def ex_sample_wire_def abi_def)
  from parseSample_layout[OF h1 h2 h3, of ex_sample_hdr]
  obtain obj r' where p: "parseSample abi (new_Records ex_file2 [])
        (layout_sample abi ex_sample_attr ex_sample_wire @ []) ex_sample_hdr
          = Some (Some (RSample obj), r', [])"
    "CPUMode obj = Misc ex_sample_hdr AND recordMiscCPUModeMask (mc abi)"
    "ExactIP obj = (Misc ex_sample_hdr AND recordMiscExactIP (mc abi) \<noteq> 0)"
    "IP obj = (if SampleFormat ex_sample_attr AND SampleFormatIP (sfc abi) \<noteq> 0
               then w_ip ex_sample_wire else 0)"
    "PID obj = (if SampleFormat ex_sample_attr AND SampleFormatTID (sfc abi) \<noteq> 0
               then sint (w_pid ex_sample_wire) else 0)"
    "TID obj = (if SampleFormat ex_sample_attr AND SampleFormatTID (sfc abi) \<noteq> 0
               then sint (w_tid ex_sample_wire) else 0)"
    "Period obj = (if SampleFormat ex_sample_attr AND SampleFormatPeriod (sfc abi) \<noteq> 0
               then w_period ex_sample_wire else 0)"
    "elems (Callchain obj) = (if SampleFormat ex_sample_attr AND SampleFormatCallchain (sfc abi) \<noteq> 0
               then w_callchain ex_sample_wire else [])"
    "elems (StackUser obj) = (if SampleFormat ex_sample_attr AND SampleFormatStackUser (sfc abi) \<noteq> 0
               then w_stack ex_sample_wire else [])"
    "Weight obj = (if SampleFormat ex_sample_attr AND SampleFormatWeight (sfc abi) \<noteq> 0
               then w_weight ex_sample_wire else 0)"
    "Transaction obj = (if SampleFormat ex_sample_attr AND SampleFormatTransaction (sfc abi) \<noteq> 0
               then w_transaction ex_sample_wire AND 0xffffffff else 0)"
    "AbortCode obj = (if SampleFormat ex_sample_attr AND SampleFormatTransaction (sfc abi) \<noteq> 0
               then ucast (drop_bit 32 (w_transaction ex_sample_wire)) else 0)"
    by blast
  show ?thesis
    apply (rule exI[of _ obj])
    apply (rule exI[of _ r'])
    using p
    apply (simp add: l)
    apply (simp add: ex_sample_attr_def ex_sample_wire_def ex_sample_hdr_def abi_def)
    done
qed


end
